theory Spec2Isabelle
  imports Complex_Main "HOL-Library.Word"
begin

unbundle bit_operations_syntax

section \<open>Data model of the fixed-point oscillator (nco\_crcq16.c)\<close>

text \<open>
  The file implements the oscillator in ``16-bit fixed-point precision'': \<open>q16_t\<close> is a
  scaled 16-bit signed integer. It is a 16-bit word here, read with \<open>sint\<close>; C computes
  \<open>+=\<close> and \<open>-=\<close> on it in \<open>int\<close> and stores the result back into 16 bits, which is the
  word's wrapping \<open>+\<close> and \<open>-\<close>.

  The header liquidfpm.h is not part of the sources. What the oscillator takes from it is
  a parameter of the model: the constants \<open>q16_pi\<close> and \<open>q16_2pi\<close> (the representations
  of the angles pi and 2 pi), the trigonometric primitives \<open>q16_sin\<close> and \<open>q16_cos\<close> and
  the complex product \<open>cq16_mul\<close>.
\<close>

type_synonym q16_t = "16 word"

record cq16_t =
  cq_real :: q16_t
  cq_imag :: q16_t

record liquidfpm =
  q16_pi :: q16_t
  q16_2pi :: q16_t
  q16_sin :: "q16_t \<Rightarrow> q16_t"
  q16_cos :: "q16_t \<Rightarrow> q16_t"
  cq16_mul :: "cq16_t \<Rightarrow> cq16_t \<Rightarrow> cq16_t"

datatype liquid_ncotype = LIQUID_NCO | LIQUID_VCO

text \<open>The function pointer \<open>compute_sincos\<close> holds one of two functions of the file.\<close>

datatype sincos_fn = COMPUTE_SINCOS_NCO | COMPUTE_SINCOS_VCO

text \<open>
  \<open>struct nco_crcq16_s\<close>. The arrays \<open>a\<close> and \<open>b\<close> are the fields \<open>pll_a\<close> and
  \<open>pll_b\<close>; the loop filter is an object of the filter module, of an opaque type \<open>'f\<close>.
\<close>

record 'f nco_crcq16_s =
  nco_type :: liquid_ncotype
  theta :: q16_t
  d_theta :: q16_t
  sintab :: "q16_t list"
  index :: "32 word"
  sine :: q16_t
  cosine :: q16_t
  compute_sincos :: sincos_fn
  bandwidth :: q16_t
  zeta :: q16_t
  pll_a :: "q16_t list"
  pll_b :: "q16_t list"
  pll_filter :: 'f

section \<open>Phase and frequency\<close>

definition nco_crcq16_constrain_phase ::
  "liquidfpm \<Rightarrow> 'f nco_crcq16_s \<Rightarrow> 'f nco_crcq16_s" where
  "nco_crcq16_constrain_phase L q =
     (if sint (theta q) > sint (q16_pi L) then q\<lparr>theta := theta q - q16_2pi L\<rparr>
      else if sint (theta q) < - sint (q16_pi L) then q\<lparr>theta := theta q + q16_2pi L\<rparr>
      else q)"

definition nco_crcq16_constrain_frequency ::
  "liquidfpm \<Rightarrow> 'f nco_crcq16_s \<Rightarrow> 'f nco_crcq16_s" where
  "nco_crcq16_constrain_frequency L q =
     (if sint (d_theta q) > sint (q16_pi L) then q\<lparr>d_theta := d_theta q - q16_2pi L\<rparr>
      else if sint (d_theta q) < - sint (q16_pi L) then q\<lparr>d_theta := d_theta q + q16_2pi L\<rparr>
      else q)"

definition nco_crcq16_set_frequency :: "'f nco_crcq16_s \<Rightarrow> q16_t \<Rightarrow> 'f nco_crcq16_s" where
  "nco_crcq16_set_frequency q f = q\<lparr>d_theta := f\<rparr>"

definition nco_crcq16_adjust_frequency :: "'f nco_crcq16_s \<Rightarrow> q16_t \<Rightarrow> 'f nco_crcq16_s" where
  "nco_crcq16_adjust_frequency q df = q\<lparr>d_theta := d_theta q + df\<rparr>"

definition nco_crcq16_set_phase ::
  "liquidfpm \<Rightarrow> 'f nco_crcq16_s \<Rightarrow> q16_t \<Rightarrow> 'f nco_crcq16_s" where
  "nco_crcq16_set_phase L q phi = nco_crcq16_constrain_phase L (q\<lparr>theta := phi\<rparr>)"

definition nco_crcq16_adjust_phase ::
  "liquidfpm \<Rightarrow> 'f nco_crcq16_s \<Rightarrow> q16_t \<Rightarrow> 'f nco_crcq16_s" where
  "nco_crcq16_adjust_phase L q dphi =
     nco_crcq16_constrain_phase L (q\<lparr>theta := theta q + dphi\<rparr>)"

definition nco_crcq16_step :: "liquidfpm \<Rightarrow> 'f nco_crcq16_s \<Rightarrow> 'f nco_crcq16_s" where
  "nco_crcq16_step L q = nco_crcq16_constrain_phase L (q\<lparr>theta := theta q + d_theta q\<rparr>)"

definition nco_crcq16_get_phase :: "'f nco_crcq16_s \<Rightarrow> q16_t" where
  "nco_crcq16_get_phase q = theta q"

definition nco_crcq16_get_frequency :: "'f nco_crcq16_s \<Rightarrow> q16_t" where
  "nco_crcq16_get_frequency q = d_theta q"

text \<open>\<open>n\<close> successive calls of \<open>nco_crcq16_step\<close>.\<close>

fun nco_steps :: "liquidfpm \<Rightarrow> nat \<Rightarrow> 'f nco_crcq16_s \<Rightarrow> 'f nco_crcq16_s" where
  "nco_steps L 0 q = q"
| "nco_steps L (Suc n) q = nco_steps L n (nco_crcq16_step L q)"

text \<open>
  What the phase arithmetic needs of the two angle constants: pi is positive, and the
  constant for 2 pi lies above it and is at most twice it. Both the exact scaling
  \<open>q16_2pi = 2 * q16_pi\<close> and a 2 pi that saturates at \<open>2 * q16_pi - 1\<close> satisfy it.
\<close>

definition q16_angles_ok :: "liquidfpm \<Rightarrow> bool" where
  "q16_angles_ok L \<longleftrightarrow>
     0 < sint (q16_pi L) \<and> sint (q16_pi L) < sint (q16_2pi L) \<and>
     sint (q16_2pi L) \<le> 2 * sint (q16_pi L)"

section \<open>Floating-point arithmetic of the C expressions\<close>

text \<open>
  The index computation and the loop-filter design are written with \<open>float\<close> and
  \<open>double\<close> expressions. Their values are modelled exactly: a finite value is a
  rational, every operation rounds its exact result to the nearest value of the format
  (24 or 53 significant bits, ties to even, gradual underflow, overflow to infinity),
  evaluated operation by operation in the type C gives the expression. The sign of a
  zero is not represented; a division of a nonzero value by zero gives the infinity of
  the sign of the numerator.
\<close>

datatype cfloat = Finite rat | Infinity bool | NaN

function pow2 :: "int \<Rightarrow> rat" where
  "pow2 e = (if e = 0 then 1 else if 0 < e then 2 * pow2 (e - 1) else pow2 (e + 1) / 2)"
  by pat_completeness auto
termination
  by (relation "measure (\<lambda>e. nat \<bar>e\<bar>)") auto

declare pow2.simps [simp del]

text \<open>The number of binary digits of a positive integer.\<close>

function bitlen :: "int \<Rightarrow> int" where
  "bitlen k = (if k \<le> 0 then 0 else 1 + bitlen (k div 2))"
  by pat_completeness auto
termination
  by (relation "measure nat") auto

declare bitlen.simps [simp del]

definition round_even :: "rat \<Rightarrow> int" where
  "round_even x =
     (let n = \<lfloor>x\<rfloor>; r = x - of_int n
      in if r < 1 / 2 then n else if 1 / 2 < r then n + 1 else if even n then n else n + 1)"

text \<open>The exponent of a nonzero value: the largest \<open>e\<close> with \<open>2 ^ e \<le> \<bar>x\<bar>\<close>.\<close>

definition ilog2 :: "rat \<Rightarrow> int" where
  "ilog2 x =
     (if 1 \<le> \<bar>x\<bar> then bitlen \<lfloor>\<bar>x\<bar>\<rfloor> - 1
      else - bitlen (\<lceil>1 / \<bar>x\<bar>\<rceil> - 1))"

definition round_to :: "nat \<Rightarrow> int \<Rightarrow> rat \<Rightarrow> rat" where
  "round_to p emin x =
     (if x = 0 then 0
      else let u = pow2 (max (ilog2 x) emin - int p + 1)
           in of_int (round_even (x / u)) * u)"

definition to_float :: "rat \<Rightarrow> cfloat" where
  "to_float x =
     (let r = round_to 24 (- 126) x
      in if ilog2 r < 128 then Finite r else Infinity (x < 0))"

definition to_double :: "rat \<Rightarrow> cfloat" where
  "to_double x =
     (let r = round_to 53 (- 1022) x
      in if ilog2 r < 1024 then Finite r else Infinity (x < 0))"

fun fneg :: "cfloat \<Rightarrow> cfloat" where
  "fneg (Finite x) = Finite (- x)"
| "fneg (Infinity s) = Infinity (\<not> s)"
| "fneg NaN = NaN"

fun fadd :: "(rat \<Rightarrow> cfloat) \<Rightarrow> cfloat \<Rightarrow> cfloat \<Rightarrow> cfloat" where
  "fadd rnd (Finite x) (Finite y) = rnd (x + y)"
| "fadd rnd (Finite x) (Infinity t) = Infinity t"
| "fadd rnd (Infinity s) (Finite y) = Infinity s"
| "fadd rnd (Infinity s) (Infinity t) = (if s = t then Infinity s else NaN)"
| "fadd rnd NaN y = NaN"
| "fadd rnd x NaN = NaN"

definition fsub :: "(rat \<Rightarrow> cfloat) \<Rightarrow> cfloat \<Rightarrow> cfloat \<Rightarrow> cfloat" where
  "fsub rnd x y = fadd rnd x (fneg y)"

fun fmul :: "(rat \<Rightarrow> cfloat) \<Rightarrow> cfloat \<Rightarrow> cfloat \<Rightarrow> cfloat" where
  "fmul rnd (Finite x) (Finite y) = rnd (x * y)"
| "fmul rnd (Finite x) (Infinity t) = (if x = 0 then NaN else Infinity ((x < 0) \<noteq> t))"
| "fmul rnd (Infinity s) (Finite y) = (if y = 0 then NaN else Infinity (s \<noteq> (y < 0)))"
| "fmul rnd (Infinity s) (Infinity t) = Infinity (s \<noteq> t)"
| "fmul rnd NaN y = NaN"
| "fmul rnd x NaN = NaN"

fun fdiv :: "(rat \<Rightarrow> cfloat) \<Rightarrow> cfloat \<Rightarrow> cfloat \<Rightarrow> cfloat" where
  "fdiv rnd (Finite x) (Finite y) =
     (if y = 0 then (if x = 0 then NaN else Infinity (x < 0)) else rnd (x / y))"
| "fdiv rnd (Finite x) (Infinity t) = Finite 0"
| "fdiv rnd (Infinity s) (Finite y) = Infinity (s \<noteq> (y < 0))"
| "fdiv rnd (Infinity s) (Infinity t) = NaN"
| "fdiv rnd NaN y = NaN"
| "fdiv rnd x NaN = NaN"

text \<open>A \<open>q16_t\<close> converts to \<open>float\<close> without rounding: its magnitude is below \<open>2 ^ 24\<close>.\<close>

definition float_of_q16 :: "q16_t \<Rightarrow> cfloat" where
  "float_of_q16 w = Finite (of_int (sint w))"

definition trunc :: "rat \<Rightarrow> int" where
  "trunc x = (if 0 \<le> x then \<lfloor>x\<rfloor> else \<lceil>x\<rceil>)"

text \<open>
  A floating value converts to an integer type by truncation towards zero when the
  truncated value is in the range of the type. For any other value C leaves the
  conversion undefined; the processors in use return some value of the integer type
  then. That value is a parameter of the model, one function for each target type.
\<close>

record c_conversions =
  uint_out_of_range :: "cfloat \<Rightarrow> 32 word"
  q16_out_of_range :: "cfloat \<Rightarrow> q16_t"

definition uint_of_float :: "c_conversions \<Rightarrow> cfloat \<Rightarrow> 32 word" where
  "uint_of_float U v =
     (case v of
        Finite x \<Rightarrow> if - 1 < x \<and> x < 4294967296 then word_of_int (trunc x)
                    else uint_out_of_range U v
      | _ \<Rightarrow> uint_out_of_range U v)"

definition q16_of_float :: "c_conversions \<Rightarrow> cfloat \<Rightarrow> q16_t" where
  "q16_of_float U v =
     (case v of
        Finite x \<Rightarrow> if - 32769 < x \<and> x < 32768 then word_of_int (trunc x)
                    else q16_out_of_range U v
      | _ \<Rightarrow> q16_out_of_range U v)"

text \<open>The value of \<open>sqrtf(2.0f)\<close>, the single-precision number nearest to the root of 2.\<close>

definition sqrtf_2 :: cfloat where
  "sqrtf_2 = Finite (11863283 / 8388608)"

section \<open>Sine and cosine\<close>

text \<open>
  A failed \<open>assert\<close> and the \<open>fprintf(stderr, ...); exit(1)\<close> of the library end the
  process; they are the error results of the model.
\<close>

datatype liquid_error =
  AssertionFailed string
  | Fatal string

text \<open>The single-precision value of the literal \<open>40.743665f\<close>.\<close>

definition table_scale :: rat where
  "table_scale = 10680707 / 262144"

text \<open>
  The expression \<open>theta * 40.743665f + 512.0f + 0.5f\<close>, in single precision: first the
  product, the phase scaled to steps of the table, then the two sums.
\<close>

definition nco_scaled_phase :: "q16_t \<Rightarrow> cfloat" where
  "nco_scaled_phase t = fmul to_float (float_of_q16 t) (to_float (40743665 / 1000000))"

definition nco_index_float :: "q16_t \<Rightarrow> cfloat" where
  "nco_index_float t =
     fadd to_float (fadd to_float (nco_scaled_phase t) (Finite 512)) (Finite (1 / 2))"

definition nco_crcq16_compute_sincos_nco ::
  "c_conversions \<Rightarrow> 'f nco_crcq16_s \<Rightarrow> liquid_error + 'f nco_crcq16_s" where
  "nco_crcq16_compute_sincos_nco U q =
     (let i = uint_of_float U (nco_index_float (theta q)) AND 0xff
      in if \<not> i < 256 then Inl (AssertionFailed ''_q->index < 256'')
         else Inr (q\<lparr>index := i,
                     sine := sintab q ! unat i,
                     cosine := sintab q ! unat ((i + 64) AND 0xff)\<rparr>))"

definition nco_crcq16_compute_sincos_vco ::
  "liquidfpm \<Rightarrow> 'f nco_crcq16_s \<Rightarrow> 'f nco_crcq16_s" where
  "nco_crcq16_compute_sincos_vco L q =
     q\<lparr>sine := q16_sin L (theta q), cosine := q16_cos L (theta q)\<rparr>"

text \<open>The call \<open>_q->compute_sincos(_q)\<close> through the function pointer.\<close>

definition call_compute_sincos ::
  "liquidfpm \<Rightarrow> c_conversions \<Rightarrow> 'f nco_crcq16_s \<Rightarrow> liquid_error + 'f nco_crcq16_s" where
  "call_compute_sincos L U q =
     (case compute_sincos q of
        COMPUTE_SINCOS_NCO \<Rightarrow> nco_crcq16_compute_sincos_nco U q
      | COMPUTE_SINCOS_VCO \<Rightarrow> Inr (nco_crcq16_compute_sincos_vco L q))"


section \<open>Mixing\<close>

definition nco_crcq16_mix_up ::
  "liquidfpm \<Rightarrow> c_conversions \<Rightarrow> 'f nco_crcq16_s \<Rightarrow> cq16_t
     \<Rightarrow> liquid_error + ('f nco_crcq16_s \<times> cq16_t)" where
  "nco_crcq16_mix_up L U q x =
     (case call_compute_sincos L U q of
        Inl e \<Rightarrow> Inl e
      | Inr q' \<Rightarrow> Inr (q', cq16_mul L x \<lparr>cq_real = cosine q', cq_imag = sine q'\<rparr>))"

definition nco_crcq16_mix_down ::
  "liquidfpm \<Rightarrow> c_conversions \<Rightarrow> 'f nco_crcq16_s \<Rightarrow> cq16_t
     \<Rightarrow> liquid_error + ('f nco_crcq16_s \<times> cq16_t)" where
  "nco_crcq16_mix_down L U q x =
     (case call_compute_sincos L U q of
        Inl e \<Rightarrow> Inl e
      | Inr q' \<Rightarrow> Inr (q', cq16_mul L x \<lparr>cq_real = cosine q', cq_imag = - sine q'\<rparr>))"

text \<open>
  The block functions run over the \<open>_n\<close> input samples in order, the list \<open>xs\<close>, and write
  one output sample for each; the input and output arrays are taken as distinct.
\<close>

fun nco_crcq16_mix_block_up ::
  "liquidfpm \<Rightarrow> c_conversions \<Rightarrow> 'f nco_crcq16_s \<Rightarrow> cq16_t list
     \<Rightarrow> liquid_error + ('f nco_crcq16_s \<times> cq16_t list)" where
  "nco_crcq16_mix_block_up L U q [] = Inr (q, [])"
| "nco_crcq16_mix_block_up L U q (x # xs) =
     (case nco_crcq16_mix_up L U q x of
        Inl e \<Rightarrow> Inl e
      | Inr (q1, y) \<Rightarrow>
          (case nco_crcq16_mix_block_up L U q1 xs of
             Inl e \<Rightarrow> Inl e
           | Inr (q2, ys) \<Rightarrow> Inr (q2, y # ys)))"

fun nco_crcq16_mix_block_down ::
  "liquidfpm \<Rightarrow> c_conversions \<Rightarrow> 'f nco_crcq16_s \<Rightarrow> cq16_t list
     \<Rightarrow> liquid_error + ('f nco_crcq16_s \<times> cq16_t list)" where
  "nco_crcq16_mix_block_down L U q [] = Inr (q, [])"
| "nco_crcq16_mix_block_down L U q (x # xs) =
     (case nco_crcq16_mix_down L U q x of
        Inl e \<Rightarrow> Inl e
      | Inr (q1, y) \<Rightarrow>
          (case nco_crcq16_mix_block_down L U q1 xs of
             Inl e \<Rightarrow> Inl e
           | Inr (q2, ys) \<Rightarrow> Inr (q2, y # ys)))"

section \<open>Phase-locked loop\<close>

text \<open>
  The loop filter belongs to the filter module, which is not part of the sources. Its
  operations are parameters: \<open>set_coefficients\<close> takes the filter and the arrays \<open>b\<close> and
  \<open>a\<close>, \<open>execute_df1\<close> takes the filter and an input sample and returns the filter and
  the output sample, \<open>clear\<close> resets the filter's state.
\<close>

record 'f iirfiltsos_rrrq16 =
  set_coefficients :: "'f \<Rightarrow> q16_t list \<Rightarrow> q16_t list \<Rightarrow> 'f"
  execute_df1 :: "'f \<Rightarrow> q16_t \<Rightarrow> 'f \<times> q16_t"
  clear :: "'f \<Rightarrow> 'f"

definition nco_crcq16_pll_reset ::
  "'f iirfiltsos_rrrq16 \<Rightarrow> 'f nco_crcq16_s \<Rightarrow> 'f nco_crcq16_s" where
  "nco_crcq16_pll_reset I q = q\<lparr>pll_filter := clear I (pll_filter q)\<rparr>"

definition nco_crcq16_reset ::
  "'f iirfiltsos_rrrq16 \<Rightarrow> 'f nco_crcq16_s \<Rightarrow> 'f nco_crcq16_s" where
  "nco_crcq16_reset I q =
     nco_crcq16_pll_reset I (q\<lparr>theta := 0, d_theta := 0, index := 0, sine := 0, cosine := 1\<rparr>)"

text \<open>
  The locals of \<open>nco_crcq16_pll_set_bandwidth\<close>, each in the type of its C expression:
  \<open>K\<close>, \<open>zeta\<close>, \<open>wn\<close>, \<open>t1\<close> and \<open>t2\<close> are \<open>float\<close>; the right-hand sides of the
  coefficients contain a \<open>double\<close> literal and are evaluated in \<open>double\<close> from there on.
\<close>

definition pll_K :: cfloat where
  "pll_K = Finite 1000"

text \<open>The single-precision value of \<open>1.0f / sqrtf(2.0f)\<close>.\<close>

definition zeta_float :: rat where
  "zeta_float = 11863283 / 16777216"

definition pll_zeta :: cfloat where
  "pll_zeta = fdiv to_float (Finite 1) sqrtf_2"

definition pll_t1 :: "q16_t \<Rightarrow> cfloat" where
  "pll_t1 b = (let wn = float_of_q16 b in fdiv to_float pll_K (fmul to_float wn wn))"

definition pll_t2 :: "q16_t \<Rightarrow> cfloat" where
  "pll_t2 b =
     (let wn = float_of_q16 b
      in fsub to_float (fdiv to_float (fmul to_float (Finite 2) pll_zeta) wn)
           (fdiv to_float (Finite 1) pll_K))"

definition pll_b_float :: "q16_t \<Rightarrow> cfloat list" where
  "pll_b_float b =
     (let twoK = fmul to_float (Finite 2) pll_K;
          h = fdiv to_float (pll_t2 b) (Finite 2)
      in [fmul to_double twoK (fadd to_double (Finite 1) h),
          fmul to_double twoK (Finite 2),
          fmul to_double twoK (fsub to_double (Finite 1) h)])"

definition pll_a_float :: "q16_t \<Rightarrow> cfloat list" where
  "pll_a_float b =
     (let h = fdiv to_float (pll_t1 b) (Finite 2)
      in [fadd to_double (Finite 1) h, fadd to_double (Finite (- 1)) h, Finite 0])"

definition nco_crcq16_pll_set_bandwidth ::
  "c_conversions \<Rightarrow> 'f iirfiltsos_rrrq16 \<Rightarrow> 'f nco_crcq16_s \<Rightarrow> q16_t
     \<Rightarrow> liquid_error + 'f nco_crcq16_s" where
  "nco_crcq16_pll_set_bandwidth U I q b =
     (if sint b < 0
      then Inl (Fatal ''error: nco_pll_set_bandwidth(), bandwidth must be positive'')
      else let bs = map (q16_of_float U) (pll_b_float b);
               as = map (q16_of_float U) (pll_a_float b)
           in Inr (q\<lparr>bandwidth := b,
                      zeta := q16_of_float U pll_zeta,
                      pll_b := bs,
                      pll_a := as,
                      pll_filter := set_coefficients I (pll_filter q) bs as\<rparr>))"

definition nco_crcq16_pll_step ::
  "'f iirfiltsos_rrrq16 \<Rightarrow> 'f nco_crcq16_s \<Rightarrow> q16_t \<Rightarrow> 'f nco_crcq16_s" where
  "nco_crcq16_pll_step I q dphi =
     (let (flt, error_filtered) = execute_df1 I (pll_filter q) dphi
      in nco_crcq16_adjust_frequency (q\<lparr>pll_filter := flt\<rparr>) error_filtered)"

section \<open>Short sequence of the OFDM frame (ofdmframe.common.c)\<close>

text \<open>
  What \<open>ofdmframe_init_S0\<close> takes from the rest of the library is a parameter: the
  value of the macro \<open>OFDMFRAME_SCTYPE_NULL\<close>, \<open>liquid_nextpow2\<close>, the m-sequence
  generator (its state is of an opaque type \<open>'ms\<close>; generating a symbol returns the
  symbol and the next state) and the inverse transform \<open>fft_run\<close> with \<open>FFT_REVERSE\<close>.
  The allocation array \<open>_p\<close> of \<open>_M\<close> bytes is the list \<open>p\<close>, and \<open>_M\<close> its length.
\<close>

record 'ms ofdm_externals =
  OFDMFRAME_SCTYPE_NULL :: "8 word"
  liquid_nextpow2 :: "nat \<Rightarrow> nat"
  msequence_create_default :: "nat \<Rightarrow> 'ms"
  msequence_generate_symbol :: "'ms \<Rightarrow> nat \<Rightarrow> 32 word \<times> 'ms"
  fft_run :: "complex list \<Rightarrow> complex list"

text \<open>The outputs \<open>_S0\<close>, \<open>_s0\<close> and \<open>*_M_S0\<close>.\<close>

record init_S0_result =
  out_S0 :: "complex list"
  out_s0 :: "complex list"
  out_M_S0 :: nat

text \<open>
  The loop over the subcarriers, from index \<open>i\<close> on, with the generator state and the
  counter \<open>M_S0\<close>; it returns the frequency-domain symbols and the counter.
\<close>

fun init_S0_loop ::
  "'ms ofdm_externals \<Rightarrow> 'ms \<Rightarrow> nat \<Rightarrow> 8 word list \<Rightarrow> nat \<Rightarrow> complex list \<times> nat" where
  "init_S0_loop X ms i [] M_S0 = ([], M_S0)"
| "init_S0_loop X ms i (t # p) M_S0 =
     (let (sym, ms') = msequence_generate_symbol X ms 3;
          s = sym AND 1;
          (v, M_S0') =
            (if t = OFDMFRAME_SCTYPE_NULL X then (0, M_S0)
             else if i mod 2 = 0 then (if s \<noteq> 0 then 1 else - 1, M_S0 + 1)
             else (0, M_S0));
          (S0, n) = init_S0_loop X ms' (Suc i) p M_S0'
      in (v # S0, n))"

text \<open>
  The time-domain sequence is scaled by \<open>1 / sqrtf(M_S0)\<close>; this one product is written
  in real arithmetic, without the rounding of \<open>float\<close>.
\<close>

definition ofdmframe_init_S0 ::
  "'ms ofdm_externals \<Rightarrow> 8 word list \<Rightarrow> liquid_error + init_S0_result" where
  "ofdmframe_init_S0 X p =
     (let m0 = liquid_nextpow2 X (length p);
          m = (if m0 < 4 then 4 else if m0 > 8 then 8 else m0);
          ms = msequence_create_default X m;
          (S0, M_S0) = init_S0_loop X ms 0 p 0
      in if M_S0 = 0
         then Inl (Fatal ''error: ofdmframe_init_S0(), no subcarriers enabled; check allocation'')
         else Inr \<lparr>out_S0 = S0,
                    out_s0 = map (\<lambda>z. z * complex_of_real (1 / sqrt (real M_S0))) (fft_run X S0),
                    out_M_S0 = M_S0\<rparr>)"

section \<open>Examples\<close>

text \<open>An instance for the examples: pi is \<open>0x2000\<close> and 2 pi is \<open>0x4000\<close>.\<close>

definition fpm_example :: liquidfpm where
  "fpm_example = \<lparr>q16_pi = 0x2000, q16_2pi = 0x4000,
     q16_sin = (\<lambda>x. 0), q16_cos = (\<lambda>x. 0),
     cq16_mul = (\<lambda>x y. \<lparr>cq_real = cq_real x * cq_real y - cq_imag x * cq_imag y,
                          cq_imag = cq_real x * cq_imag y + cq_imag x * cq_real y\<rparr>)\<rparr>"

text \<open>An instance with a saturated 2 pi: pi is \<open>0x4000\<close> and 2 pi is \<open>0x7fff\<close>.\<close>

definition fpm_saturated :: liquidfpm where
  "fpm_saturated = fpm_example\<lparr>q16_pi := 0x4000, q16_2pi := 0x7fff\<rparr>"

definition conv_example :: c_conversions where
  "conv_example = \<lparr>uint_out_of_range = (\<lambda>v. 0x80000000), q16_out_of_range = (\<lambda>v. 0)\<rparr>"

definition filt_example :: "unit iirfiltsos_rrrq16" where
  "filt_example = \<lparr>set_coefficients = (\<lambda>f b a. ()), execute_df1 = (\<lambda>f x. ((), x)),
     clear = (\<lambda>f. ())\<rparr>"

definition ofdm_example :: "nat ofdm_externals" where
  "ofdm_example = \<lparr>OFDMFRAME_SCTYPE_NULL = 0, liquid_nextpow2 = (\<lambda>n. 6),
     msequence_create_default = (\<lambda>m. 0),
     msequence_generate_symbol = (\<lambda>ms n. (word_of_nat ms, Suc ms)),
     fft_run = (\<lambda>zs. zs)\<rparr>"

definition nco_example :: "unit nco_crcq16_s" where
  "nco_example = \<lparr>nco_type = LIQUID_NCO, theta = 0, d_theta = 0,
     sintab = map word_of_nat [0..<256], index = 0, sine = 0, cosine = 1,
     compute_sincos = COMPUTE_SINCOS_NCO, bandwidth = 0, zeta = 0,
     pll_a = [0, 0, 0], pll_b = [0, 0, 0], pll_filter = ()\<rparr>"

section \<open>Signed 16-bit arithmetic without overflow\<close>

lemma sint16_add:
  fixes a b :: "16 word"
  assumes "- 32768 \<le> sint a + sint b" "sint a + sint b \<le> 32767"
  shows "sint (a + b) = sint a + sint b"
  using assms by (simp add: sint_word_ariths signed_take_bit_int_eq_self)

lemma sint16_sub:
  fixes a b :: "16 word"
  assumes "- 32768 \<le> sint a - sint b" "sint a - sint b \<le> 32767"
  shows "sint (a - b) = sint a - sint b"
  using assms by (simp add: sint_word_ariths signed_take_bit_int_eq_self)

lemma sint16_bounds:
  fixes a :: "16 word"
  shows "- 32768 \<le> sint a" "sint a \<le> 32767"
  using sint_ge [of a] sint_lt [of a] by simp_all

lemma constrain_phase_range:
  assumes P: "0 \<le> sint (q16_pi L)" and T: "sint (q16_2pi L) \<le> 2 * sint (q16_pi L)"
    and m: "\<bar>sint (theta q)\<bar> < sint (q16_2pi L)"
  shows "- sint (q16_pi L) \<le> sint (theta (nco_crcq16_constrain_phase L q)) \<and>
         sint (theta (nco_crcq16_constrain_phase L q)) \<le> sint (q16_pi L)"
proof -
  let ?t = "sint (theta q)" and ?P = "sint (q16_pi L)" and ?T = "sint (q16_2pi L)"
  note b = sint16_bounds [of "theta q"] sint16_bounds [of "q16_2pi L"] sint16_bounds [of "q16_pi L"]
  show ?thesis
  proof (cases "?t > ?P")
    case True
    have "sint (theta q - q16_2pi L) = ?t - ?T"
      using m True P b by (intro sint16_sub) linarith+
    with True P T m show ?thesis
      by (simp add: nco_crcq16_constrain_phase_def)
  next
    case False
    show ?thesis
    proof (cases "?t < - ?P")
      case True
      have "sint (theta q + q16_2pi L) = ?t + ?T"
        using m True P b by (intro sint16_add) linarith+
      with True False P T m show ?thesis
        by (simp add: nco_crcq16_constrain_phase_def)
    next
      case F2: False
      with False show ?thesis
        by (simp add: nco_crcq16_constrain_phase_def)
    qed
  qed
qed

lemma sint16_add_small:
  fixes a b :: "16 word"
  assumes "\<bar>sint a + sint b\<bar> < sint (t :: 16 word)"
  shows "sint (a + b) = sint a + sint b"
proof (rule sint16_add)
  from assms sint16_bounds(2) [of t] show "- 32768 \<le> sint a + sint b" by linarith
  from assms sint16_bounds(2) [of t] show "sint a + sint b \<le> 32767" by linarith
qed

lemma fpm_example_simps [simp]:
  "q16_pi fpm_example = 0x2000" "q16_2pi fpm_example = 0x4000"
  by (simp_all add: fpm_example_def)

lemma nco_example_simps [simp]:
  "theta nco_example = 0" "d_theta nco_example = 0"
  by (simp_all add: nco_example_def)

lemma fpm_saturated_simps [simp]:
  "q16_pi fpm_saturated = 0x4000" "q16_2pi fpm_saturated = 0x7fff"
  by (simp_all add: fpm_saturated_def)

section \<open>The phase stays between minus pi and pi\<close>

text \<open>
  C1 (as amended). For angle constants with \<open>0 \<le> q16_pi\<close> and \<open>q16_2pi \<le> 2 * q16_pi\<close>:
  when the phase given to \<open>nco_crcq16_set_phase\<close> has a magnitude below 2 pi, and likewise
  when the phase that \<open>nco_crcq16_adjust_phase\<close> or \<open>nco_crcq16_step\<close> reaches before
  the correction has a magnitude below 2 pi, the stored phase lies between minus pi and
  pi, both ends included. The lower end is attained: the correction tests
  \<open>theta < - q16_pi\<close> strictly, so a phase of exactly minus pi is kept.
\<close>

theorem phase_constrained:
  assumes "0 \<le> sint (q16_pi L)" and "sint (q16_2pi L) \<le> 2 * sint (q16_pi L)"
  shows "(\<bar>sint phi\<bar> < sint (q16_2pi L) \<longrightarrow>
           - sint (q16_pi L) \<le> sint (theta (nco_crcq16_set_phase L q phi)) \<and>
           sint (theta (nco_crcq16_set_phase L q phi)) \<le> sint (q16_pi L)) \<and>
         (\<bar>sint (theta q) + sint dphi\<bar> < sint (q16_2pi L) \<longrightarrow>
           - sint (q16_pi L) \<le> sint (theta (nco_crcq16_adjust_phase L q dphi)) \<and>
           sint (theta (nco_crcq16_adjust_phase L q dphi)) \<le> sint (q16_pi L)) \<and>
         (\<bar>sint (theta q) + sint (d_theta q)\<bar> < sint (q16_2pi L) \<longrightarrow>
           - sint (q16_pi L) \<le> sint (theta (nco_crcq16_step L q)) \<and>
           sint (theta (nco_crcq16_step L q)) \<le> sint (q16_pi L))"
proof (intro conjI impI)
  assume m: "\<bar>sint phi\<bar> < sint (q16_2pi L)"
  then have "\<bar>sint (theta (q\<lparr>theta := phi\<rparr>))\<bar> < sint (q16_2pi L)" by simp
  from constrain_phase_range [OF assms this]
  show "- sint (q16_pi L) \<le> sint (theta (nco_crcq16_set_phase L q phi))"
    and "sint (theta (nco_crcq16_set_phase L q phi)) \<le> sint (q16_pi L)"
    by (simp_all add: nco_crcq16_set_phase_def)
next
  assume m: "\<bar>sint (theta q) + sint dphi\<bar> < sint (q16_2pi L)"
  then have "\<bar>sint (theta (q\<lparr>theta := theta q + dphi\<rparr>))\<bar> < sint (q16_2pi L)"
    by (simp add: sint16_add_small [OF m])
  from constrain_phase_range [OF assms this]
  show "- sint (q16_pi L) \<le> sint (theta (nco_crcq16_adjust_phase L q dphi))"
    and "sint (theta (nco_crcq16_adjust_phase L q dphi)) \<le> sint (q16_pi L)"
    by (simp_all add: nco_crcq16_adjust_phase_def)
next
  assume m: "\<bar>sint (theta q) + sint (d_theta q)\<bar> < sint (q16_2pi L)"
  then have "\<bar>sint (theta (q\<lparr>theta := theta q + d_theta q\<rparr>))\<bar> < sint (q16_2pi L)"
    by (simp add: sint16_add_small [OF m])
  from constrain_phase_range [OF assms this]
  show "- sint (q16_pi L) \<le> sint (theta (nco_crcq16_step L q))"
    and "sint (theta (nco_crcq16_step L q)) \<le> sint (q16_pi L)"
    by (simp_all add: nco_crcq16_step_def)
qed

theorem phase_constrained_witness:
  "0 \<le> sint (q16_pi fpm_example) \<and> sint (q16_2pi fpm_example) \<le> 2 * sint (q16_pi fpm_example) \<and>
   \<bar>sint (0x3000 :: q16_t)\<bar> < sint (q16_2pi fpm_example) \<and>
   \<bar>sint (theta nco_example) + sint (0x3000 :: q16_t)\<bar> < sint (q16_2pi fpm_example) \<and>
   \<bar>sint (theta (nco_example\<lparr>d_theta := 0x3000\<rparr>)) + sint (d_theta (nco_example\<lparr>d_theta := 0x3000\<rparr>))\<bar>
      < sint (q16_2pi fpm_example) \<and>
   sint (theta (nco_crcq16_set_phase fpm_example nco_example 0x3000)) \<le> sint (q16_pi fpm_example) \<and>
   sint (theta (nco_crcq16_adjust_phase fpm_example nco_example 0x3000)) \<le> sint (q16_pi fpm_example) \<and>
   sint (theta (nco_crcq16_step fpm_example (nco_example\<lparr>d_theta := 0x3000\<rparr>)))
      \<le> sint (q16_pi fpm_example)"
proof -
  have h1: "0 \<le> sint (q16_pi fpm_example)" by simp
  have h2: "sint (q16_2pi fpm_example) \<le> 2 * sint (q16_pi fpm_example)" by simp
  have m1: "\<bar>sint (0x3000 :: q16_t)\<bar> < sint (q16_2pi fpm_example)" by simp
  have m2: "\<bar>sint (theta nco_example) + sint (0x3000 :: q16_t)\<bar> < sint (q16_2pi fpm_example)"
    by simp
  have m3: "\<bar>sint (theta (nco_example\<lparr>d_theta := 0x3000\<rparr>))
      + sint (d_theta (nco_example\<lparr>d_theta := 0x3000\<rparr>))\<bar> < sint (q16_2pi fpm_example)"
    by simp
  note t1 = phase_constrained [OF h1 h2, of "0x3000" nco_example "0x3000"]
  note t3 = phase_constrained [OF h1 h2, of "0x3000" "nco_example\<lparr>d_theta := 0x3000\<rparr>" "0x3000"]
  from t1 m1 have c1: "sint (theta (nco_crcq16_set_phase fpm_example nco_example 0x3000))
      \<le> sint (q16_pi fpm_example)" by blast
  from t1 m2 have c2: "sint (theta (nco_crcq16_adjust_phase fpm_example nco_example 0x3000))
      \<le> sint (q16_pi fpm_example)" by blast
  from t3 m3 have c3: "sint (theta (nco_crcq16_step fpm_example (nco_example\<lparr>d_theta := 0x3000\<rparr>)))
      \<le> sint (q16_pi fpm_example)" by blast
  from h1 h2 m1 m2 m3 c1 c2 c3 show ?thesis by (intro conjI)
qed

text \<open>
  The strict lower bound of C1 fails: setting the phase to minus pi (magnitude below
  2 pi) stores minus pi.
\<close>

theorem phase_constrained_counterexample:
  "\<bar>sint (- 0x2000 :: q16_t)\<bar> < sint (q16_2pi fpm_example) \<and>
   \<not> - sint (q16_pi fpm_example)
       < sint (theta (nco_crcq16_set_phase fpm_example nco_example (- 0x2000)))"
  by (simp add: nco_crcq16_set_phase_def nco_crcq16_constrain_phase_def)


section \<open>Repeated steps\<close>

lemma step_d_theta [simp]: "d_theta (nco_crcq16_step L q) = d_theta q"
  by (simp add: nco_crcq16_step_def nco_crcq16_constrain_phase_def)

lemma steps_d_theta [simp]: "d_theta (nco_steps L n q) = d_theta q"
  by (induction n arbitrary: q) simp_all

lemma step_exact:
  assumes ok: "q16_angles_ok L"
    and f: "\<bar>sint (d_theta q)\<bar> \<le> sint (q16_2pi L)"
    and ov: "sint (q16_pi L) + \<bar>sint (d_theta q)\<bar> \<le> 32767"
    and r: "- sint (q16_pi L) \<le> sint (theta q)" "sint (theta q) \<le> sint (q16_pi L)"
  shows "- sint (q16_pi L) \<le> sint (theta (nco_crcq16_step L q)) \<and>
         sint (theta (nco_crcq16_step L q)) \<le> sint (q16_pi L) \<and>
         sint (q16_2pi L) dvd (sint (theta (nco_crcq16_step L q)) - (sint (theta q) + sint (d_theta q)))"
proof -
  define P where "P = sint (q16_pi L)"
  define T where "T = sint (q16_2pi L)"
  define d where "d = sint (d_theta q)"
  define s where "s = sint (theta q) + d"
  from ok have P: "0 < P" "P < T" "T \<le> 2 * P"
    by (simp_all add: q16_angles_ok_def P_def T_def)
  from f have f': "- T \<le> d" "d \<le> T"
    by (simp_all add: abs_le_iff P_def T_def d_def)
  from ov have ov': "P - d \<le> 32767" "P + d \<le> 32767"
    by (simp_all add: P_def d_def)
  from r have r': "- P \<le> sint (theta q)" "sint (theta q) \<le> P"
    by (simp_all add: P_def)
  have sb: "- 32767 \<le> s" "s \<le> 32767" "- P - T \<le> s" "s \<le> P + T"
    using f' r' ov' by (simp_all add: s_def)
  have s: "sint (theta q + d_theta q) = s"
    unfolding s_def d_def using sb by (intro sint16_add) (simp_all add: s_def d_def)
  have bT: "- 32768 \<le> T" "T \<le> 32767"
    using sint16_bounds [of "q16_2pi L"] by (simp_all add: T_def)
  consider (hi) "s > P" | (lo) "s < - P" | (mid) "- P \<le> s" "s \<le> P"
    by linarith
  then have "- P \<le> sint (theta (nco_crcq16_step L q)) \<and>
         sint (theta (nco_crcq16_step L q)) \<le> P \<and>
         T dvd (sint (theta (nco_crcq16_step L q)) - s)"
  proof cases
    case hi
    have t: "theta (nco_crcq16_step L q) = theta q + d_theta q - q16_2pi L"
      using hi s by (simp add: nco_crcq16_step_def nco_crcq16_constrain_phase_def P_def)
    have "sint (theta q + d_theta q - q16_2pi L) = s - T"
      unfolding T_def s [symmetric]
      by (rule sint16_sub) (use hi sb P bT in \<open>simp_all add: s T_def [symmetric]\<close>)
    with t have v: "sint (theta (nco_crcq16_step L q)) = s - T" by simp
    have "T dvd (s - T - s)" by simp
    with v hi sb P show ?thesis by simp
  next
    case lo
    have n: "\<not> s > P" using lo P by simp
    have t: "theta (nco_crcq16_step L q) = theta q + d_theta q + q16_2pi L"
      using lo n s by (simp add: nco_crcq16_step_def nco_crcq16_constrain_phase_def P_def)
    have "sint (theta q + d_theta q + q16_2pi L) = s + T"
      unfolding T_def s [symmetric]
      by (rule sint16_add) (use lo sb P bT in \<open>simp_all add: s T_def [symmetric]\<close>)
    with t have v: "sint (theta (nco_crcq16_step L q)) = s + T" by simp
    have "T dvd (s + T - s)" by simp
    with v lo sb P show ?thesis by simp
  next
    case mid
    have t: "theta (nco_crcq16_step L q) = theta q + d_theta q"
      using mid s by (simp add: nco_crcq16_step_def nco_crcq16_constrain_phase_def P_def)
    with s mid show ?thesis by simp
  qed
  then show ?thesis by (simp add: P_def T_def s_def d_def)
qed

lemma steps_exact:
  assumes ok: "q16_angles_ok L"
    and f: "\<bar>sint (d_theta q)\<bar> \<le> sint (q16_2pi L)"
    and ov: "sint (q16_pi L) + \<bar>sint (d_theta q)\<bar> \<le> 32767"
    and r: "- sint (q16_pi L) \<le> sint (theta q)" "sint (theta q) \<le> sint (q16_pi L)"
  shows "- sint (q16_pi L) \<le> sint (theta (nco_steps L n q)) \<and>
         sint (theta (nco_steps L n q)) \<le> sint (q16_pi L) \<and>
         sint (q16_2pi L) dvd
           (sint (theta (nco_steps L n q)) - (sint (theta q) + int n * sint (d_theta q)))"
  using f ov r
proof (induction n arbitrary: q)
  case 0
  then show ?case by simp
next
  case (Suc n)
  define q1 where "q1 = nco_crcq16_step L q"
  define T where "T = sint (q16_2pi L)"
  define x0 where "x0 = sint (theta q)"
  define x1 where "x1 = sint (theta q1)"
  define xn where "xn = sint (theta (nco_steps L n q1))"
  define d where "d = sint (d_theta q)"
  from step_exact [OF ok Suc.prems]
  have r1: "- sint (q16_pi L) \<le> sint (theta q1)" "sint (theta q1) \<le> sint (q16_pi L)"
    and d1: "T dvd (x1 - (x0 + d))"
    by (simp_all add: q1_def T_def x0_def x1_def d_def)
  have dq1: "d_theta q1 = d_theta q"
    by (simp add: q1_def)
  have f1: "\<bar>sint (d_theta q1)\<bar> \<le> sint (q16_2pi L)"
    using Suc.prems(1) by (simp only: dq1)
  have o1: "sint (q16_pi L) + \<bar>sint (d_theta q1)\<bar> \<le> 32767"
    using Suc.prems(2) by (simp only: dq1)
  from Suc.IH [OF f1 o1 r1]
  have IH: "- sint (q16_pi L) \<le> xn" "xn \<le> sint (q16_pi L)"
    and dn: "T dvd (xn - (x1 + int n * d))"
    by (simp_all only: dq1 xn_def T_def x1_def d_def)
  have "T dvd (xn - (x1 + int n * d)) + (x1 - (x0 + d))"
    using dn d1 by (rule dvd_add)
  moreover have "(xn - (x1 + int n * d)) + (x1 - (x0 + d)) = xn - (x0 + int (Suc n) * d)"
    by (simp add: algebra_simps)
  ultimately have "T dvd (xn - (x0 + int (Suc n) * d))"
    by (simp only:)
  with IH have "- sint (q16_pi L) \<le> xn \<and> xn \<le> sint (q16_pi L) \<and>
      T dvd (xn - (x0 + int (Suc n) * d))"
    by (intro conjI)
  then show ?case
    by (simp only: nco_steps.simps xn_def q1_def T_def x0_def d_def)
qed

text \<open>Two integers of \<open>[- P, P]\<close> resp. magnitude below \<open>T - P\<close> that agree modulo \<open>T\<close> are equal.\<close>

lemma congruent_close_eq:
  assumes "- P \<le> x" "x \<le> P" "\<bar>d\<bar> < T - P" "T dvd (x - d)"
  shows "x = (d :: int)"
proof -
  from assms(4) obtain k where k: "x - d = T * k" by (auto simp: dvd_def)
  have T: "0 < T" using assms(1,2,3) by linarith
  have b: "\<bar>x - d\<bar> < T" using assms(1,2,3) by linarith
  have "k = 0"
  proof (rule ccontr)
    assume "k \<noteq> 0"
    then have "k \<ge> 1 \<or> k \<le> - 1" by linarith
    then show False
    proof
      assume "k \<ge> 1"
      then have "T * 1 \<le> T * k" using T by (intro mult_left_mono) simp_all
      with k b show False by simp
    next
      assume "k \<le> - 1"
      then have "T * k \<le> T * (- 1)" using T by (intro mult_left_mono) simp_all
      with k b show False by simp
    qed
  qed
  with k show ?thesis by simp
qed

lemma steps_256:
  assumes ok: "q16_angles_ok L"
    and f: "\<bar>sint (d_theta q)\<bar> \<le> sint (q16_2pi L)"
    and ov: "sint (q16_pi L) + \<bar>sint (d_theta q)\<bar> \<le> 32767"
    and z: "theta q = 0"
    and c: "\<bar>256 * sint (d_theta q) - sint (q16_2pi L)\<bar> < sint (q16_2pi L) - sint (q16_pi L)"
  shows "sint (theta (nco_steps L 256 q)) = 256 * sint (d_theta q) - sint (q16_2pi L)"
proof -
  define T where "T = sint (q16_2pi L)"
  define x where "x = sint (theta (nco_steps L 256 q))"
  define d where "d = sint (d_theta q)"
  from ok have P: "0 < sint (q16_pi L)"
    by (simp add: q16_angles_ok_def)
  have r: "- sint (q16_pi L) \<le> sint (theta q)" "sint (theta q) \<le> sint (q16_pi L)"
    using z P by simp_all
  from steps_exact [OF ok f ov r, of 256] z
  have b: "- sint (q16_pi L) \<le> x" "x \<le> sint (q16_pi L)" and dv: "T dvd (x - 256 * d)"
    by (simp_all add: x_def T_def d_def)
  have "T dvd (x - 256 * d) + T" using dv by (rule dvd_add) simp
  moreover have "x - 256 * d + T = x - (256 * d - T)" by simp
  ultimately have "T dvd (x - (256 * d - T))" by (simp only:)
  with b c have "x = 256 * d - T"
    by (intro congruent_close_eq [of "sint (q16_pi L)" x "256 * d - T" T])
      (simp_all add: T_def d_def)
  then show ?thesis by (simp only: x_def d_def T_def)
qed

text \<open>
  C3 (as amended). For angle constants that satisfy \<open>q16_angles_ok\<close>, a frequency of
  magnitude at most 2 pi whose sum with pi does not overflow 16 bits, and a start at
  phase 0: after \<open>n\<close> calls of \<open>nco_crcq16_step\<close> the phase lies between minus pi and pi
  (ends included) and differs from \<open>n\<close> times the frequency by a multiple of the constant
  2 pi, exactly. After 256 calls at a frequency \<open>f\<close> for which \<open>256 * f\<close> is nearer to the
  constant 2 pi than that constant is to pi, as for the representation of 2 pi / 256, the
  phase is \<open>256 * f - 2 pi\<close>: it is the start value 0 exactly when \<open>256 * f\<close> is the
  constant 2 pi.
\<close>

theorem step_phase_congruent:
  assumes "q16_angles_ok L"
    and "\<bar>sint (d_theta q)\<bar> \<le> sint (q16_2pi L)"
    and "sint (q16_pi L) + \<bar>sint (d_theta q)\<bar> \<le> 32767"
    and "theta q = 0"
  shows "- sint (q16_pi L) \<le> sint (theta (nco_steps L n q)) \<and>
         sint (theta (nco_steps L n q)) \<le> sint (q16_pi L) \<and>
         sint (q16_2pi L) dvd (sint (theta (nco_steps L n q)) - int n * sint (d_theta q)) \<and>
         (\<bar>256 * sint (d_theta q) - sint (q16_2pi L)\<bar> < sint (q16_2pi L) - sint (q16_pi L) \<longrightarrow>
            sint (theta (nco_steps L 256 q)) = 256 * sint (d_theta q) - sint (q16_2pi L))"
proof -
  from assms(1) have P: "0 < sint (q16_pi L)"
    by (simp add: q16_angles_ok_def)
  have r: "- sint (q16_pi L) \<le> sint (theta q)" "sint (theta q) \<le> sint (q16_pi L)"
    using assms(4) P by simp_all
  from steps_exact [OF assms(1,2,3) r, of n] assms(4)
  have "- sint (q16_pi L) \<le> sint (theta (nco_steps L n q))"
    "sint (theta (nco_steps L n q)) \<le> sint (q16_pi L)"
    "sint (q16_2pi L) dvd (sint (theta (nco_steps L n q)) - int n * sint (d_theta q))"
    by simp_all
  moreover have "\<bar>256 * sint (d_theta q) - sint (q16_2pi L)\<bar> < sint (q16_2pi L) - sint (q16_pi L) \<longrightarrow>
            sint (theta (nco_steps L 256 q)) = 256 * sint (d_theta q) - sint (q16_2pi L)"
    using steps_256 [OF assms] by blast
  ultimately show ?thesis by (intro conjI)
qed

theorem step_phase_congruent_witness:
  "q16_angles_ok fpm_example \<and>
   \<bar>sint (d_theta (nco_example\<lparr>d_theta := 0x3000\<rparr>))\<bar> \<le> sint (q16_2pi fpm_example) \<and>
   sint (q16_pi fpm_example) + \<bar>sint (d_theta (nco_example\<lparr>d_theta := 0x3000\<rparr>))\<bar> \<le> 32767 \<and>
   theta (nco_example\<lparr>d_theta := 0x3000\<rparr>) = 0 \<and>
   sint (theta (nco_steps fpm_example 5 (nco_example\<lparr>d_theta := 0x3000\<rparr>))) = - 4096 \<and>
   sint (q16_2pi fpm_example) dvd
     (sint (theta (nco_steps fpm_example 5 (nco_example\<lparr>d_theta := 0x3000\<rparr>)))
        - int 5 * sint (d_theta (nco_example\<lparr>d_theta := 0x3000\<rparr>))) \<and>
   \<bar>256 * sint (d_theta (nco_example\<lparr>d_theta := 0x40\<rparr>)) - sint (q16_2pi fpm_example)\<bar>
      < sint (q16_2pi fpm_example) - sint (q16_pi fpm_example) \<and>
   sint (theta (nco_steps fpm_example 256 (nco_example\<lparr>d_theta := 0x40\<rparr>))) = 0"
proof -
  let ?q = "nco_example\<lparr>d_theta := 0x3000\<rparr>" and ?c = "nco_example\<lparr>d_theta := 0x40\<rparr>"
  have ok: "q16_angles_ok fpm_example"
    by (simp add: q16_angles_ok_def)
  have f: "\<bar>sint (d_theta ?q)\<bar> \<le> sint (q16_2pi fpm_example)" by simp
  have o: "sint (q16_pi fpm_example) + \<bar>sint (d_theta ?q)\<bar> \<le> 32767" by simp
  have z: "theta ?q = 0" by simp
  have e: "sint (theta (nco_steps fpm_example 5 ?q)) = - 4096"
    by (simp add: eval_nat_numeral nco_crcq16_step_def nco_crcq16_constrain_phase_def)
  have f': "\<bar>sint (d_theta ?c)\<bar> \<le> sint (q16_2pi fpm_example)" by simp
  have o': "sint (q16_pi fpm_example) + \<bar>sint (d_theta ?c)\<bar> \<le> 32767" by simp
  have z': "theta ?c = 0" by simp
  have c: "\<bar>256 * sint (d_theta ?c) - sint (q16_2pi fpm_example)\<bar>
      < sint (q16_2pi fpm_example) - sint (q16_pi fpm_example)" by simp
  from step_phase_congruent [OF ok f o z, of 5]
  have d: "sint (q16_2pi fpm_example) dvd
     (sint (theta (nco_steps fpm_example 5 ?q)) - int 5 * sint (d_theta ?q))"
    by (rule conjunct1 [OF conjunct2 [OF conjunct2]])
  from step_phase_congruent [OF ok f' o' z', of 0] c
  have "sint (theta (nco_steps fpm_example 256 ?c)) =
      256 * sint (d_theta ?c) - sint (q16_2pi fpm_example)"
    by (rule mp [OF conjunct2 [OF conjunct2 [OF conjunct2]]])
  then have g: "sint (theta (nco_steps fpm_example 256 ?c)) = 0" by simp
  from ok f o z e d c g show ?thesis by (intro conjI)
qed

text \<open>
  C3 as stated fails in both parts. For every frequency: the correction subtracts 2 pi
  once only, and with a frequency of 3.5 pi one step from phase 0 leaves the phase at
  1.5 pi, above pi. For the closure: with pi \<open>0x4000\<close> and the saturated 2 pi \<open>0x7fff\<close>
  no frequency has 256 times itself equal to 2 pi; at the nearest one, \<open>0x80\<close>, the phase
  after 256 calls is 1, not the start value 0.
\<close>

theorem step_phase_counterexample:
  "theta (nco_steps fpm_example 1 (nco_example\<lparr>d_theta := 0x7000\<rparr>)) = 0x3000 \<and>
   \<not> sint (theta (nco_steps fpm_example 1 (nco_example\<lparr>d_theta := 0x7000\<rparr>)))
       \<le> sint (q16_pi fpm_example) \<and>
   q16_angles_ok fpm_saturated \<and>
   \<bar>256 * sint (0x80 :: q16_t) - sint (q16_2pi fpm_saturated)\<bar> \<le> 128 \<and>
   theta nco_example = 0 \<and>
   theta (nco_steps fpm_saturated 256 (nco_example\<lparr>d_theta := 0x80\<rparr>)) = 1"
proof -
  let ?c = "nco_example\<lparr>d_theta := 0x80\<rparr>"
  have a: "theta (nco_steps fpm_example 1 (nco_example\<lparr>d_theta := 0x7000\<rparr>)) = 0x3000 \<and>
   \<not> sint (theta (nco_steps fpm_example 1 (nco_example\<lparr>d_theta := 0x7000\<rparr>)))
       \<le> sint (q16_pi fpm_example)"
    by (simp add: nco_crcq16_step_def nco_crcq16_constrain_phase_def)
  have ok: "q16_angles_ok fpm_saturated"
    by (simp add: q16_angles_ok_def)
  have n: "\<bar>256 * sint (0x80 :: q16_t) - sint (q16_2pi fpm_saturated)\<bar> \<le> 128" by simp
  have "sint (theta (nco_steps fpm_saturated 256 ?c)) =
      256 * sint (d_theta ?c) - sint (q16_2pi fpm_saturated)"
    by (rule steps_256 [OF ok]) simp_all
  then have "sint (theta (nco_steps fpm_saturated 256 ?c)) = sint (1 :: q16_t)" by simp
  then have b: "theta (nco_steps fpm_saturated 256 ?c) = 1" by (rule signed_word_eqI)
  from a ok n b show ?thesis by simp
qed

section \<open>Rounding error of the single-precision operations\<close>

text \<open>
  The constant \<open>sqrtf_2\<close> is the single-precision number nearest to the root of 2: the
  root lies within half a unit in the last place of it.
\<close>

lemma sqrtf_2_nearest:
  "(11863283 / 8388608 - 1 / 16777216 :: rat)\<^sup>2 < 2 \<and>
   2 < (11863283 / 8388608 + 1 / 16777216 :: rat)\<^sup>2"
  by (simp add: power2_eq_square)

text \<open>
  An operation that rounds to \<open>p\<close> binary digits and whose exact result has a magnitude
  below \<open>2 ^ k\<close> returns a finite value at most \<open>2 ^ (k - p) / 2\<close> away from it; in single
  precision \<open>p\<close> is 24, in double precision 53.
\<close>

lemma pow2_0: "pow2 0 = 1"
  by (subst pow2.simps) simp

lemma pow2_plus1: "pow2 (e + 1) = 2 * pow2 e"
proof (cases "0 \<le> e")
  case True
  then show ?thesis by (subst pow2.simps) simp
next
  case False
  then have "pow2 e = pow2 (e + 1) / 2" by (subst pow2.simps) simp
  then show ?thesis by simp
qed

lemma pow2_add_nat: "pow2 (e + int n) = 2 ^ n * pow2 e"
proof (induction n)
  case 0
  then show ?case by simp
next
  case (Suc n)
  have "e + int (Suc n) = (e + int n) + 1" by simp
  then have "pow2 (e + int (Suc n)) = pow2 ((e + int n) + 1)" by (simp only:)
  also have "\<dots> = 2 * pow2 (e + int n)" by (rule pow2_plus1)
  finally show ?case using Suc by simp
qed

lemma pow2_nat: "pow2 (int n) = 2 ^ n"
  using pow2_add_nat [of 0 n] by (simp add: pow2_0)

lemma pow2_neg_nat: "pow2 (- int n) = 1 / 2 ^ n"
proof -
  have "pow2 (- int n + int n) = 2 ^ n * pow2 (- int n)" by (rule pow2_add_nat)
  then have "2 ^ n * pow2 (- int n) = 1" by (simp add: pow2_0)
  then show ?thesis by (simp add: field_simps)
qed

lemma pow2_pos: "0 < pow2 e"
proof (cases "0 \<le> e")
  case True
  then have "pow2 e = 2 ^ nat e" using pow2_nat [of "nat e"] by simp
  then show ?thesis by simp
next
  case False
  then have "pow2 e = 1 / 2 ^ nat (- e)" using pow2_neg_nat [of "nat (- e)"] by simp
  then show ?thesis by simp
qed

lemma pow2_mono: "a \<le> b \<Longrightarrow> pow2 a \<le> pow2 b"
proof -
  assume "a \<le> b"
  then have "pow2 b = 2 ^ nat (b - a) * pow2 a"
    using pow2_add_nat [of a "nat (b - a)"] by simp
  moreover have "(1 :: rat) \<le> 2 ^ nat (b - a)" by simp
  ultimately show ?thesis
    using pow2_pos [of a] by (simp add: mult_le_cancel_right1)
qed

lemma bitlen_nonpos: "k \<le> 0 \<Longrightarrow> bitlen k = 0"
  by (subst bitlen.simps) simp

lemma bitlen_pos: "0 < k \<Longrightarrow> bitlen k = 1 + bitlen (k div 2)"
  by (subst bitlen.simps) simp

lemma bitlen_nonneg: "0 \<le> bitlen k"
proof (induction k rule: bitlen.induct)
  case (1 k)
  show ?case
  proof (cases "k \<le> 0")
    case True
    then show ?thesis by (simp add: bitlen_nonpos)
  next
    case False
    with 1 have "0 \<le> bitlen (k div 2)" by simp
    with False show ?thesis by (simp add: bitlen_pos)
  qed
qed

lemma bitlen_lower: "0 < k \<Longrightarrow> 2 ^ nat (bitlen k - 1) \<le> k"
proof (induction k rule: bitlen.induct)
  case (1 k)
  then have k: "0 < k" by simp
  show ?case
  proof (cases "k div 2 = 0")
    case True
    with k have "bitlen k = 1" by (simp add: bitlen_pos bitlen_nonpos)
    with k show ?thesis by simp
  next
    case False
    with k have h: "0 < k div 2" by (simp add: pos_imp_zdiv_pos_iff)
    with 1 k have IH: "2 ^ nat (bitlen (k div 2) - 1) \<le> k div 2" by simp
    have b1: "1 \<le> bitlen (k div 2)"
      using h bitlen_nonneg [of "k div 2 div 2"] by (simp add: bitlen_pos)
    have "bitlen k - 1 = bitlen (k div 2)" using k by (simp add: bitlen_pos)
    moreover have "nat (bitlen (k div 2)) = Suc (nat (bitlen (k div 2) - 1))"
      using b1 by simp
    ultimately have "(2 :: int) ^ nat (bitlen k - 1) = 2 * 2 ^ nat (bitlen (k div 2) - 1)"
      by simp
    also have "\<dots> \<le> 2 * (k div 2)" using IH by simp
    also have "\<dots> \<le> k" by simp
    finally show ?thesis .
  qed
qed

lemma bitlen_upper: "0 \<le> k \<Longrightarrow> k < 2 ^ nat (bitlen k)"
proof (induction k rule: bitlen.induct)
  case (1 k)
  show ?case
  proof (cases "k \<le> 0")
    case True
    with 1 have "k = 0" by simp
    then show ?thesis by (simp add: bitlen_nonpos)
  next
    case False
    then have k: "0 < k" by simp
    then have h: "0 \<le> k div 2" by simp
    with 1 False have IH: "k div 2 < 2 ^ nat (bitlen (k div 2))" by simp
    have "nat (bitlen k) = Suc (nat (bitlen (k div 2)))"
      using k bitlen_nonneg [of "k div 2"] by (simp add: bitlen_pos)
    then have "(2 :: int) ^ nat (bitlen k) = 2 * 2 ^ nat (bitlen (k div 2))" by simp
    moreover have "k < 2 * (k div 2 + 1)"
    proof -
      define h r where "h = k div 2" and "r = k mod 2"
      have "k = 2 * h + r" by (simp add: h_def r_def)
      moreover have "r < 2" by (simp add: r_def)
      ultimately have "k < 2 * (h + 1)" by simp
      then show ?thesis by (simp only: h_def)
    qed
    moreover have "2 * (k div 2 + 1) \<le> 2 * 2 ^ nat (bitlen (k div 2))" using IH by simp
    ultimately show ?thesis by linarith
  qed
qed

lemma ilog2_0: "ilog2 0 = 0"
  by (simp add: ilog2_def bitlen_nonpos)

lemma ilog2_lower:
  assumes "x \<noteq> 0"
  shows "pow2 (ilog2 x) \<le> \<bar>x\<bar>"
proof (cases "1 \<le> \<bar>x\<bar>")
  case True
  define m where "m = \<lfloor>\<bar>x\<bar>\<rfloor>"
  have m: "0 < m" using True by (simp add: m_def)
  have b: "1 \<le> bitlen m"
    using m bitlen_nonneg [of "m div 2"] by (simp add: bitlen_pos)
  have "ilog2 x = bitlen m - 1" using True by (simp add: ilog2_def m_def)
  moreover have "pow2 (bitlen m - 1) = 2 ^ nat (bitlen m - 1)"
    using b pow2_nat [of "nat (bitlen m - 1)"] by simp
  moreover have "(2 :: rat) ^ nat (bitlen m - 1) \<le> \<bar>x\<bar>"
  proof -
    have "rat_of_int (2 ^ nat (bitlen m - 1)) \<le> rat_of_int m"
      using bitlen_lower [OF m] by (simp only: of_int_le_iff)
    moreover have "rat_of_int m \<le> \<bar>x\<bar>" by (simp add: m_def)
    ultimately have "rat_of_int (2 ^ nat (bitlen m - 1)) \<le> \<bar>x\<bar>"
      by (rule order_trans)
    then show ?thesis by simp
  qed
  ultimately show ?thesis by (simp only:)
next
  case False
  define y where "y = 1 / \<bar>x\<bar>"
  define m where "m = \<lceil>y\<rceil> - 1"
  have xp: "0 < \<bar>x\<bar>" using assms by simp
  have y1: "1 < y" using False xp by (simp add: y_def)
  have m0: "0 \<le> m" using y1 by (simp add: m_def less_ceiling_iff)
  have "y \<le> rat_of_int (m + 1)" by (simp add: m_def)
  also have "\<dots> \<le> rat_of_int (2 ^ nat (bitlen m))"
    using bitlen_upper [OF m0] by (simp only: of_int_le_iff)
  finally have yb: "y \<le> 2 ^ nat (bitlen m)" by simp
  have "ilog2 x = - bitlen m" using False by (simp add: ilog2_def m_def y_def)
  moreover have "pow2 (- bitlen m) = 1 / 2 ^ nat (bitlen m)"
    using pow2_neg_nat [of "nat (bitlen m)"] bitlen_nonneg [of m] by simp
  moreover have "1 / 2 ^ nat (bitlen m) \<le> \<bar>x\<bar>"
  proof -
    have "1 \<le> \<bar>x\<bar> * 2 ^ nat (bitlen m)"
      using yb xp by (simp add: y_def field_simps)
    then show ?thesis by (simp add: field_simps)
  qed
  ultimately show ?thesis by simp
qed

lemma ilog2_less:
  assumes "\<bar>x\<bar> < pow2 k" and "0 < k"
  shows "ilog2 x < k"
proof (cases "x = 0")
  case True
  with assms(2) show ?thesis by (simp add: ilog2_0)
next
  case False
  show ?thesis
  proof (rule ccontr)
    assume "\<not> ilog2 x < k"
    then have "pow2 k \<le> pow2 (ilog2 x)" by (intro pow2_mono) simp
    with ilog2_lower [OF False] assms(1) show False by simp
  qed
qed

lemma round_even_error: "\<bar>rat_of_int (round_even z) - z\<bar> \<le> 1 / 2"
proof -
  have "rat_of_int \<lfloor>z\<rfloor> \<le> z" "z < rat_of_int \<lfloor>z\<rfloor> + 1" by linarith+
  then show ?thesis
    by (auto simp add: round_even_def Let_def abs_le_iff)
qed

lemma ilog2_less_nz:
  assumes "x \<noteq> 0" and "\<bar>x\<bar> < pow2 k"
  shows "ilog2 x < k"
proof (rule ccontr)
  assume "\<not> ilog2 x < k"
  then have "pow2 k \<le> pow2 (ilog2 x)" by (intro pow2_mono) simp
  with ilog2_lower [OF assms(1)] assms(2) show False by simp
qed

lemma pow2_half: "pow2 (k - 1) = pow2 k / 2"
  using pow2_plus1 [of "k - 1"] by simp

lemma round_to_abs_error:
  assumes "\<bar>x\<bar> < pow2 k" and "emin < k"
  shows "\<bar>round_to p emin x - x\<bar> \<le> pow2 (k - int p) / 2"
proof (cases "x = 0")
  case True
  then show ?thesis using pow2_pos [of "k - int p"] by (simp add: round_to_def)
next
  case False
  have "ilog2 x < k" using False assms(1) by (rule ilog2_less_nz)
  with assms(2) have m: "max (ilog2 x) emin - int p + 1 \<le> k - int p" by simp
  define u where "u = pow2 (max (ilog2 x) emin - int p + 1)"
  have u0: "0 < u" by (simp add: u_def pow2_pos)
  have uk: "u \<le> pow2 (k - int p)"
    unfolding u_def using m by (rule pow2_mono)
  define r where "r = rat_of_int (round_even (x / u)) * u"
  have rt: "round_to p emin x = r"
    using False by (simp add: round_to_def Let_def r_def u_def)
  have "\<bar>r - x\<bar> = \<bar>rat_of_int (round_even (x / u)) - x / u\<bar> * u"
  proof -
    have "r - x = (rat_of_int (round_even (x / u)) - x / u) * u"
      using u0 by (simp add: r_def field_simps)
    then show ?thesis using u0 by (simp add: abs_mult)
  qed
  also have "\<dots> \<le> (1 / 2) * u"
    using round_even_error [of "x / u"] u0 by (intro mult_right_mono) simp_all
  also have "\<dots> \<le> pow2 (k - int p) / 2" using uk by simp
  finally show ?thesis by (simp only: rt)
qed

lemma to_float_abs:
  assumes "\<bar>x\<bar> < pow2 k" and "- 126 < k" and "k \<le> 127"
  shows "\<exists>r. to_float x = Finite r \<and> \<bar>r - x\<bar> \<le> pow2 (k - 24) / 2"
proof -
  define r where "r = round_to 24 (- 126) x"
  have e: "\<bar>r - x\<bar> \<le> pow2 (k - 24) / 2"
    unfolding r_def using round_to_abs_error [OF assms(1,2), of 24] by simp
  have "pow2 (k - 24) \<le> pow2 k" by (rule pow2_mono) simp
  with e have "\<bar>r - x\<bar> < pow2 k" using pow2_pos [of "k - 24"] by linarith
  with assms(1) have "\<bar>r\<bar> < 2 * pow2 k" by linarith
  then have b: "\<bar>r\<bar> < pow2 (k + 1)" by (simp only: pow2_plus1)
  have "ilog2 r < 128"
  proof (cases "r = 0")
    case True
    then show ?thesis by (simp add: ilog2_0)
  next
    case False
    from ilog2_less_nz [OF False b] assms(3) show ?thesis by simp
  qed
  then have "to_float x = Finite r"
    by (simp add: to_float_def r_def)
  with e show ?thesis by blast
qed

lemma to_double_abs:
  assumes "\<bar>x\<bar> < pow2 k" and "- 1022 < k" and "k \<le> 1023"
  shows "\<exists>r. to_double x = Finite r \<and> \<bar>r - x\<bar> \<le> pow2 (k - 53) / 2"
proof -
  define r where "r = round_to 53 (- 1022) x"
  have e: "\<bar>r - x\<bar> \<le> pow2 (k - 53) / 2"
    unfolding r_def using round_to_abs_error [OF assms(1,2), of 53] by simp
  have "pow2 (k - 53) \<le> pow2 k" by (rule pow2_mono) simp
  with e have "\<bar>r - x\<bar> < pow2 k" using pow2_pos [of "k - 53"] by linarith
  with assms(1) have "\<bar>r\<bar> < 2 * pow2 k" by linarith
  then have b: "\<bar>r\<bar> < pow2 (k + 1)" by (simp only: pow2_plus1)
  have "ilog2 r < 1024"
  proof (cases "r = 0")
    case True
    then show ?thesis by (simp add: ilog2_0)
  next
    case False
    from ilog2_less_nz [OF False b] assms(3) show ?thesis by simp
  qed
  then have "to_double x = Finite r"
    by (simp add: to_double_def r_def)
  with e show ?thesis by blast
qed

lemma pow2_numeral_values:
  "pow2 21 = 2097152" "pow2 10 = 1024" "pow2 (- 3) = 1 / 8" "pow2 (- 14) = 1 / 16384"
  using pow2_nat [of 21] pow2_nat [of 10] pow2_neg_nat [of 3] pow2_neg_nat [of 14]
  by simp_all

lemma to_float_error:
  assumes "\<bar>x\<bar> < 2097152"
  shows "\<exists>r. to_float x = Finite r \<and> \<bar>r - x\<bar> \<le> 1 / 16"
  using to_float_abs [of x 21] assms by (simp add: pow2_numeral_values)

text \<open>Below 1024 the error of a single-precision operation is at most \<open>2 ^ - 15\<close>.\<close>

lemma to_float_error_1024:
  assumes "\<bar>x\<bar> < 1024"
  shows "\<exists>r. to_float x = Finite r \<and> \<bar>r - x\<bar> \<le> 1 / 32768"
  using to_float_abs [of x 10] assms by (simp add: pow2_numeral_values)

lemma table_scale_float: "to_float (40743665 / 1000000) = Finite table_scale"
  unfolding table_scale_def by code_simp

lemma nco_index_float_error:
  "\<exists>y. nco_index_float t = Finite y \<and>
       \<bar>y - (rat_of_int (sint t) * table_scale + 512 + 1 / 2)\<bar> \<le> 3 / 16 \<and>
       y < 4294967296"
proof -
  define a where "a = rat_of_int (sint t) * table_scale"
  have "- 32768 \<le> sint t" "sint t \<le> 32767"
    using sint_ge [of t] sint_lt [of t] by simp_all
  then have "rat_of_int (- 32768) \<le> rat_of_int (sint t)"
    "rat_of_int (sint t) \<le> rat_of_int 32767"
    by (simp_all only: of_int_le_iff)
  then have "- 32768 \<le> rat_of_int (sint t)" "rat_of_int (sint t) \<le> 32767"
    by simp_all
  then have a: "\<bar>a\<bar> \<le> 1335089" by (simp add: a_def table_scale_def abs_le_iff)
  then have "\<bar>a\<bar> < 2097152" by simp
  from to_float_error [OF this] obtain p1 where
    p1: "to_float a = Finite p1" "\<bar>p1 - a\<bar> \<le> 1 / 16" by blast
  have "\<bar>p1 + 512\<bar> < 2097152" using p1(2) a by linarith
  from to_float_error [OF this] obtain p2 where
    p2: "to_float (p1 + 512) = Finite p2" "\<bar>p2 - (p1 + 512)\<bar> \<le> 1 / 16" by blast
  have "\<bar>p2 + 1 / 2\<bar> < 2097152" using p2(2) p1(2) a by linarith
  from to_float_error [OF this] obtain p3 where
    p3: "to_float (p2 + 1 / 2) = Finite p3" "\<bar>p3 - (p2 + 1 / 2)\<bar> \<le> 1 / 16" by blast
  have "nco_index_float t =
      fadd to_float
        (fadd to_float
           (fmul to_float (Finite (rat_of_int (sint t))) (Finite table_scale))
           (Finite 512))
        (Finite (1 / 2))"
    by (simp only: nco_index_float_def nco_scaled_phase_def float_of_q16_def table_scale_float)
  also have "\<dots> = Finite p3"
    by (simp only: fmul.simps fadd.simps a_def [symmetric] p1(1) p2(1) p3(1))
  finally have "nco_index_float t = Finite p3" .
  moreover have "\<bar>p3 - (a + 512 + 1 / 2)\<bar> \<le> 3 / 16"
    using p1(2) p2(2) p3(2) by linarith
  moreover from this a have "p3 < 4294967296" by linarith
  ultimately show ?thesis by (simp add: a_def)
qed


lemma pow2_more_values:
  "pow2 0 = 1" "pow2 1 = 2" "pow2 12 = 4096" "pow2 30 = 1073741824"
  "pow2 (- 23) = 1 / 8388608" "pow2 (- 24) = 1 / 16777216"
  "pow2 (- 52) = 1 / 4503599627370496" "pow2 (- 41) = 1 / 2199023255552"
  "pow2 (- 43) = 1 / 8796093022208"
  using pow2_nat [of 0] pow2_nat [of 1] pow2_nat [of 12] pow2_nat [of 30]
    pow2_neg_nat [of 23] pow2_neg_nat [of 24] pow2_neg_nat [of 52] pow2_neg_nat [of 41]
    pow2_neg_nat [of 43]
  by simp_all

lemma to_float_error_2:
  assumes "\<bar>x\<bar> < 2"
  shows "\<exists>r. to_float x = Finite r \<and> \<bar>r - x\<bar> \<le> 1 / 16777216"
  using to_float_abs [of x 1] assms by (simp add: pow2_more_values)

lemma to_float_error_1:
  assumes "\<bar>x\<bar> < 1"
  shows "\<exists>r. to_float x = Finite r \<and> \<bar>r - x\<bar> \<le> 1 / 33554432"
  using to_float_abs [of x 0] assms by (simp add: pow2_more_values)

lemma to_double_error_2:
  assumes "\<bar>x\<bar> < 2"
  shows "\<exists>r. to_double x = Finite r \<and> \<bar>r - x\<bar> \<le> 1 / 9007199254740992"
  using to_double_abs [of x 1] assms by (simp add: pow2_more_values)

lemma to_double_error_4096:
  assumes "\<bar>x\<bar> < 4096"
  shows "\<exists>r. to_double x = Finite r \<and> \<bar>r - x\<bar> \<le> 1 / 4398046511104"
  using to_double_abs [of x 12] assms by (simp add: pow2_more_values)

lemma to_double_error_1024:
  assumes "\<bar>x\<bar> < 1024"
  shows "\<exists>r. to_double x = Finite r \<and> \<bar>r - x\<bar> \<le> 1 / 17592186044416"
  using to_double_abs [of x 10] assms by (simp add: pow2_numeral_values pow2_more_values)

text \<open>The relative error of a single-precision operation on a value of magnitude at least 1.\<close>

lemma ilog2_nonneg:
  assumes "1 \<le> \<bar>x\<bar>"
  shows "0 \<le> ilog2 x"
proof -
  have "0 < \<lfloor>\<bar>x\<bar>\<rfloor>" using assms by simp
  then have "1 \<le> bitlen \<lfloor>\<bar>x\<bar>\<rfloor>"
    using bitlen_nonneg [of "\<lfloor>\<bar>x\<bar>\<rfloor> div 2"] by (simp add: bitlen_pos)
  with assms show ?thesis by (simp add: ilog2_def)
qed

lemma to_float_rel:
  assumes "1 \<le> \<bar>x\<bar>" and "\<bar>x\<bar> < pow2 127"
  shows "\<exists>r. to_float x = Finite r \<and> \<bar>r - x\<bar> \<le> \<bar>x\<bar> / 16777216"
proof -
  have nz: "x \<noteq> 0" using assms(1) by auto
  define e where "e = ilog2 x"
  have e0: "0 \<le> e" unfolding e_def using assms(1) by (rule ilog2_nonneg)
  have le: "pow2 e \<le> \<bar>x\<bar>" unfolding e_def using nz by (rule ilog2_lower)
  define u where "u = pow2 (e - 23)"
  have u0: "0 < u" by (simp add: u_def pow2_pos)
  have "pow2 ((e - 24) + int 24) = 2 ^ 24 * pow2 (e - 24)" by (rule pow2_add_nat)
  then have p24: "pow2 (e - 24) = pow2 e / 16777216" by simp
  have "pow2 (e - 23 - 1) = pow2 (e - 23) / 2" by (rule pow2_half)
  then have uh: "u / 2 = pow2 e / 16777216" by (simp add: u_def p24)
  define r where "r = rat_of_int (round_even (x / u)) * u"
  have "max e (- 126) - int 24 + 1 = e - 23" using e0 by simp
  then have rt: "round_to 24 (- 126) x = r"
    using nz by (simp add: round_to_def Let_def r_def u_def e_def)
  have "\<bar>r - x\<bar> = \<bar>rat_of_int (round_even (x / u)) - x / u\<bar> * u"
  proof -
    have "r - x = (rat_of_int (round_even (x / u)) - x / u) * u"
      using u0 by (simp add: r_def field_simps)
    then show ?thesis using u0 by (simp add: abs_mult)
  qed
  also have "\<dots> \<le> (1 / 2) * u"
    using round_even_error [of "x / u"] u0 by (intro mult_right_mono) simp_all
  also have "\<dots> = pow2 e / 16777216" using uh by simp
  also have "\<dots> \<le> \<bar>x\<bar> / 16777216" using le by simp
  finally have err: "\<bar>r - x\<bar> \<le> \<bar>x\<bar> / 16777216" .
  then have "\<bar>r\<bar> < 2 * \<bar>x\<bar>" using assms(1) by linarith
  with assms(2) have "\<bar>r\<bar> < 2 * pow2 127" by linarith
  then have b: "\<bar>r\<bar> < pow2 (127 + 1)" by (simp only: pow2_plus1)
  have "r \<noteq> 0" using err assms(1) by auto
  from ilog2_less_nz [OF this b] have "ilog2 r < 128" by simp
  then have "to_float x = Finite r" by (simp add: to_float_def rt)
  with err show ?thesis by blast
qed

section \<open>The table index and the lookups\<close>

lemma and_ff_less: "(w :: 32 word) AND 0xff < 256"
proof -
  have "w AND 0xff \<le> 0xff" by (rule word_and_le1)
  then show ?thesis by (simp add: word_le_nat_alt word_less_nat_alt)
qed

lemma unat_and_ff: "unat ((w :: 32 word) AND 0xff) = unat w mod 256"
proof -
  have "w AND 0xff = take_bit 8 w"
    by (simp add: take_bit_eq_mask mask_eq_exp_minus_1)
  moreover have "unat (take_bit 8 w) = take_bit 8 (unat w)"
    by (rule unsigned_take_bit_eq)
  ultimately show ?thesis by (simp add: take_bit_eq_mod)
qed

lemma unat_and_ff_less: "unat ((w :: 32 word) AND 0xff) < 256"
  by (simp add: unat_and_ff)


lemma compute_sincos_nco_eq:
  "nco_crcq16_compute_sincos_nco U q =
     Inr (q\<lparr>index := uint_of_float U (nco_index_float (theta q)) AND 0xff,
            sine := sintab q ! unat (uint_of_float U (nco_index_float (theta q)) AND 0xff),
            cosine := sintab q !
              unat ((uint_of_float U (nco_index_float (theta q)) AND 0xff) + 64 AND 0xff)\<rparr>)"
  by (simp add: nco_crcq16_compute_sincos_nco_def Let_def and_ff_less)






text \<open>
  C10. For every phase value, constrained or not, and whatever an out-of-range conversion
  to \<open>unsigned int\<close> returns: the sine/cosine computation of the NCO mode masks the index
  with \<open>0xff\<close>, the assertion \<open>index < 256\<close> holds (the function returns its result, not
  the assertion failure), and both table positions, the index and the index plus 64
  masked, are below 256, the number of entries of the table.
\<close>

theorem sincos_nco_index_bounded:
  "\<exists>q'. nco_crcq16_compute_sincos_nco U q = Inr q' \<and>
        index q' = uint_of_float U (nco_index_float (theta q)) AND 0xff \<and>
        unat (index q') < 256 \<and> unat ((index q' + 64) AND 0xff) < 256"
  by (simp add: compute_sincos_nco_eq unat_and_ff_less)





text \<open>
  The index is not the exactly rounded product either: at the phase value 513 the
  single-precision product rounds up to 20901.5 and the index is 166, where the exact
  value of \<open>513 * 40.743665f + 0.5\<close> has the integer part 20901, that is 165 modulo 256.
\<close>

lemma nco_index_float_513: "nco_index_float 513 = Finite 21414"
  by code_simp

text \<open>
  The product is formed from the stored 16-bit value itself: at \<open>0x1000\<close>, a quarter turn
  when pi is \<open>0x2000\<close>, it is 166886 steps of the table and the index is 230, where a
  quarter turn is 64 steps.
\<close>

lemma nco_index_float_quarter:
  "nco_scaled_phase 0x1000 = Finite (10680707 / 64) \<and>
   nco_index_float 0x1000 = Finite (10713507 / 64) \<and>
   \<lfloor>10713507 / 64 :: rat\<rfloor> mod 256 = 230"
  by code_simp

section \<open>Block mixing\<close>

lemma call_compute_sincos_ok:
  obtains q' where "call_compute_sincos L U q = Inr q'"
    and "theta q' = theta q" and "d_theta q' = d_theta q"
    and "sintab q' = sintab q" and "compute_sincos q' = compute_sincos q"
  by (cases "compute_sincos q")
    (simp_all add: call_compute_sincos_def compute_sincos_nco_eq
      nco_crcq16_compute_sincos_vco_def)

lemma call_compute_sincos_cong:
  assumes "theta q1 = theta q" and "sintab q1 = sintab q"
    and "compute_sincos q1 = compute_sincos q"
    and "call_compute_sincos L U q = Inr a" and "call_compute_sincos L U q1 = Inr b"
  shows "sine b = sine a \<and> cosine b = cosine a"
  using assms
  by (cases "compute_sincos q")
    (auto simp add: call_compute_sincos_def compute_sincos_nco_eq
      nco_crcq16_compute_sincos_vco_def)

lemma mix_up_ok:
  obtains q' where
    "nco_crcq16_mix_up L U q x =
       Inr (q', cq16_mul L x \<lparr>cq_real = cosine q', cq_imag = sine q'\<rparr>)"
    and "call_compute_sincos L U q = Inr q'"
    and "theta q' = theta q" and "d_theta q' = d_theta q"
    and "sintab q' = sintab q" and "compute_sincos q' = compute_sincos q"
proof -
  obtain q' where c: "call_compute_sincos L U q = Inr q'"
    and k: "theta q' = theta q" "d_theta q' = d_theta q"
      "sintab q' = sintab q" "compute_sincos q' = compute_sincos q"
    by (rule call_compute_sincos_ok)
  from c have "nco_crcq16_mix_up L U q x =
       Inr (q', cq16_mul L x \<lparr>cq_real = cosine q', cq_imag = sine q'\<rparr>)"
    by (simp add: nco_crcq16_mix_up_def)
  from this c k show ?thesis by (rule that)
qed

lemma mix_down_ok:
  obtains q' where
    "nco_crcq16_mix_down L U q x =
       Inr (q', cq16_mul L x \<lparr>cq_real = cosine q', cq_imag = - sine q'\<rparr>)"
    and "call_compute_sincos L U q = Inr q'"
    and "theta q' = theta q" and "d_theta q' = d_theta q"
    and "sintab q' = sintab q" and "compute_sincos q' = compute_sincos q"
proof -
  obtain q' where c: "call_compute_sincos L U q = Inr q'"
    and k: "theta q' = theta q" "d_theta q' = d_theta q"
      "sintab q' = sintab q" "compute_sincos q' = compute_sincos q"
    by (rule call_compute_sincos_ok)
  from c have "nco_crcq16_mix_down L U q x =
       Inr (q', cq16_mul L x \<lparr>cq_real = cosine q', cq_imag = - sine q'\<rparr>)"
    by (simp add: nco_crcq16_mix_down_def)
  from this c k show ?thesis by (rule that)
qed

lemma mix_up_same_angle:
  assumes s: "theta q1 = theta q" "sintab q1 = sintab q" "compute_sincos q1 = compute_sincos q"
    and m: "nco_crcq16_mix_up L U q1 x = Inr (a, y)"
  shows "\<exists>qi. nco_crcq16_mix_up L U q x = Inr (qi, y)"
proof -
  obtain b where b: "nco_crcq16_mix_up L U q x =
       Inr (b, cq16_mul L x \<lparr>cq_real = cosine b, cq_imag = sine b\<rparr>)"
    and cb: "call_compute_sincos L U q = Inr b"
    by (rule mix_up_ok)
  obtain a' where a: "nco_crcq16_mix_up L U q1 x =
       Inr (a', cq16_mul L x \<lparr>cq_real = cosine a', cq_imag = sine a'\<rparr>)"
    and ca: "call_compute_sincos L U q1 = Inr a'"
    by (rule mix_up_ok)
  from call_compute_sincos_cong [OF s cb ca]
  have "sine a' = sine b" "cosine a' = cosine b" by simp_all
  with a m have "y = cq16_mul L x \<lparr>cq_real = cosine b, cq_imag = sine b\<rparr>" by simp
  with b show ?thesis by simp
qed

lemma mix_down_same_angle:
  assumes s: "theta q1 = theta q" "sintab q1 = sintab q" "compute_sincos q1 = compute_sincos q"
    and m: "nco_crcq16_mix_down L U q1 x = Inr (a, y)"
  shows "\<exists>qi. nco_crcq16_mix_down L U q x = Inr (qi, y)"
proof -
  obtain b where b: "nco_crcq16_mix_down L U q x =
       Inr (b, cq16_mul L x \<lparr>cq_real = cosine b, cq_imag = - sine b\<rparr>)"
    and cb: "call_compute_sincos L U q = Inr b"
    by (rule mix_down_ok)
  obtain a' where a: "nco_crcq16_mix_down L U q1 x =
       Inr (a', cq16_mul L x \<lparr>cq_real = cosine a', cq_imag = - sine a'\<rparr>)"
    and ca: "call_compute_sincos L U q1 = Inr a'"
    by (rule mix_down_ok)
  from call_compute_sincos_cong [OF s cb ca]
  have "sine a' = sine b" "cosine a' = cosine b" by simp_all
  with a m have "y = cq16_mul L x \<lparr>cq_real = cosine b, cq_imag = - sine b\<rparr>" by simp
  with b show ?thesis by simp
qed

lemma mix_block_up_gen:
  assumes "theta q1 = theta q" "d_theta q1 = d_theta q" "sintab q1 = sintab q"
    "compute_sincos q1 = compute_sincos q"
  shows "\<exists>q' ys. nco_crcq16_mix_block_up L U q1 xs = Inr (q', ys) \<and>
      length ys = length xs \<and>
      (\<forall>i<length xs. \<exists>qi. nco_crcq16_mix_up L U q (xs ! i) = Inr (qi, ys ! i)) \<and>
      theta q' = theta q \<and> d_theta q' = d_theta q"
  using assms
proof (induction xs arbitrary: q1)
  case Nil
  then show ?case by simp
next
  case (Cons x xs)
  obtain q2 where m: "nco_crcq16_mix_up L U q1 x =
       Inr (q2, cq16_mul L x \<lparr>cq_real = cosine q2, cq_imag = sine q2\<rparr>)"
    and k: "theta q2 = theta q1" "d_theta q2 = d_theta q1"
      "sintab q2 = sintab q1" "compute_sincos q2 = compute_sincos q1"
    by (rule mix_up_ok)
  define y where "y = cq16_mul L x \<lparr>cq_real = cosine q2, cq_imag = sine q2\<rparr>"
  have m': "nco_crcq16_mix_up L U q1 x = Inr (q2, y)"
    using m by (simp add: y_def)
  have s2: "theta q2 = theta q" "d_theta q2 = d_theta q" "sintab q2 = sintab q"
    "compute_sincos q2 = compute_sincos q"
    using k Cons.prems by simp_all
  from Cons.IH [OF s2] obtain q' ys where
    r: "nco_crcq16_mix_block_up L U q2 xs = Inr (q', ys)" "length ys = length xs"
      "\<forall>i<length xs. \<exists>qi. nco_crcq16_mix_up L U q (xs ! i) = Inr (qi, ys ! i)"
      "theta q' = theta q" "d_theta q' = d_theta q"
    by blast
  have h: "\<exists>qi. nco_crcq16_mix_up L U q x = Inr (qi, y)"
    using Cons.prems(1,3,4) m' by (rule mix_up_same_angle)
  have e: "nco_crcq16_mix_block_up L U q1 (x # xs) = Inr (q', y # ys)"
    using m' r(1) by simp
  have a: "\<forall>i<length (x # xs). \<exists>qi.
      nco_crcq16_mix_up L U q ((x # xs) ! i) = Inr (qi, (y # ys) ! i)"
  proof (intro allI impI)
    fix i assume "i < length (x # xs)"
    then show "\<exists>qi. nco_crcq16_mix_up L U q ((x # xs) ! i) = Inr (qi, (y # ys) ! i)"
      using h r(3) by (cases i) simp_all
  qed
  from e a r(2,4,5) show ?case by simp
qed

lemma mix_block_down_gen:
  assumes "theta q1 = theta q" "d_theta q1 = d_theta q" "sintab q1 = sintab q"
    "compute_sincos q1 = compute_sincos q"
  shows "\<exists>q' ys. nco_crcq16_mix_block_down L U q1 xs = Inr (q', ys) \<and>
      length ys = length xs \<and>
      (\<forall>i<length xs. \<exists>qi. nco_crcq16_mix_down L U q (xs ! i) = Inr (qi, ys ! i)) \<and>
      theta q' = theta q \<and> d_theta q' = d_theta q"
  using assms
proof (induction xs arbitrary: q1)
  case Nil
  then show ?case by simp
next
  case (Cons x xs)
  obtain q2 where m: "nco_crcq16_mix_down L U q1 x =
       Inr (q2, cq16_mul L x \<lparr>cq_real = cosine q2, cq_imag = - sine q2\<rparr>)"
    and k: "theta q2 = theta q1" "d_theta q2 = d_theta q1"
      "sintab q2 = sintab q1" "compute_sincos q2 = compute_sincos q1"
    by (rule mix_down_ok)
  define y where "y = cq16_mul L x \<lparr>cq_real = cosine q2, cq_imag = - sine q2\<rparr>"
  have m': "nco_crcq16_mix_down L U q1 x = Inr (q2, y)"
    using m by (simp add: y_def)
  have s2: "theta q2 = theta q" "d_theta q2 = d_theta q" "sintab q2 = sintab q"
    "compute_sincos q2 = compute_sincos q"
    using k Cons.prems by simp_all
  from Cons.IH [OF s2] obtain q' ys where
    r: "nco_crcq16_mix_block_down L U q2 xs = Inr (q', ys)" "length ys = length xs"
      "\<forall>i<length xs. \<exists>qi. nco_crcq16_mix_down L U q (xs ! i) = Inr (qi, ys ! i)"
      "theta q' = theta q" "d_theta q' = d_theta q"
    by blast
  have h: "\<exists>qi. nco_crcq16_mix_down L U q x = Inr (qi, y)"
    using Cons.prems(1,3,4) m' by (rule mix_down_same_angle)
  have e: "nco_crcq16_mix_block_down L U q1 (x # xs) = Inr (q', y # ys)"
    using m' r(1) by simp
  have a: "\<forall>i<length (x # xs). \<exists>qi.
      nco_crcq16_mix_down L U q ((x # xs) ! i) = Inr (qi, (y # ys) ! i)"
  proof (intro allI impI)
    fix i assume "i < length (x # xs)"
    then show "\<exists>qi. nco_crcq16_mix_down L U q ((x # xs) ! i) = Inr (qi, (y # ys) ! i)"
      using h r(3) by (cases i) simp_all
  qed
  from e a r(2,4,5) show ?case by simp
qed

text \<open>
  C7. For every oscillator state and every input sequence \<open>xs\<close>, \<open>nco_crcq16_mix_block_up\<close>
  returns an output sequence of the same length whose \<open>i\<close>-th element is the result of
  \<open>nco_crcq16_mix_up\<close> on \<open>xs ! i\<close> in the state the block started from, so at the same
  angle for every element; phase and frequency are those of the start. The same holds
  for \<open>nco_crcq16_mix_block_down\<close> and \<open>nco_crcq16_mix_down\<close>.
\<close>

theorem mix_block_elementwise:
  "(\<exists>q' ys. nco_crcq16_mix_block_up L U q xs = Inr (q', ys) \<and>
      length ys = length xs \<and>
      (\<forall>i<length xs. \<exists>qi. nco_crcq16_mix_up L U q (xs ! i) = Inr (qi, ys ! i)) \<and>
      theta q' = theta q \<and> d_theta q' = d_theta q) \<and>
   (\<exists>q' ys. nco_crcq16_mix_block_down L U q xs = Inr (q', ys) \<and>
      length ys = length xs \<and>
      (\<forall>i<length xs. \<exists>qi. nco_crcq16_mix_down L U q (xs ! i) = Inr (qi, ys ! i)) \<and>
      theta q' = theta q \<and> d_theta q' = d_theta q)"
  using mix_block_up_gen [of q q L U xs] mix_block_down_gen [of q q L U xs]
  by (intro conjI) simp_all

theorem mix_block_elementwise_witness:
  "(1 :: nat) < length [\<lparr>cq_real = 5, cq_imag = 0\<rparr>, \<lparr>cq_real = 0, cq_imag = 7 :: q16_t\<rparr>] \<and>
   (\<exists>q' ys qi.
      nco_crcq16_mix_block_up fpm_example conv_example nco_example
        [\<lparr>cq_real = 5, cq_imag = 0\<rparr>, \<lparr>cq_real = 0, cq_imag = 7\<rparr>] = Inr (q', ys) \<and>
      nco_crcq16_mix_up fpm_example conv_example nco_example
        ([\<lparr>cq_real = 5, cq_imag = 0\<rparr>, \<lparr>cq_real = 0, cq_imag = 7\<rparr>] ! 1) = Inr (qi, ys ! 1))"
proof -
  let ?xs = "[\<lparr>cq_real = 5, cq_imag = 0\<rparr>, \<lparr>cq_real = 0, cq_imag = 7 :: q16_t\<rparr>]"
  have l: "(1 :: nat) < length ?xs" by simp
  from mix_block_elementwise [of fpm_example conv_example nco_example ?xs]
  obtain q' ys where
    e: "nco_crcq16_mix_block_up fpm_example conv_example nco_example ?xs = Inr (q', ys)"
    and a: "\<forall>i<length ?xs. \<exists>qi.
        nco_crcq16_mix_up fpm_example conv_example nco_example (?xs ! i) = Inr (qi, ys ! i)"
    by blast
  from a l obtain qi where
    "nco_crcq16_mix_up fpm_example conv_example nco_example (?xs ! 1) = Inr (qi, ys ! 1)"
    by blast
  with e l show ?thesis by blast
qed



section \<open>Loop bandwidth and loop step\<close>

lemma pll_zeta_value: "pll_zeta = Finite zeta_float"
  unfolding zeta_float_def by code_simp

lemma pll_two_zeta: "fmul to_float (Finite 2) (Finite zeta_float) = Finite (2 * zeta_float)"
  unfolding zeta_float_def by code_simp

lemma pll_inv_K: "fdiv to_float (Finite 1) pll_K = Finite (8589935 / 8589934592)"
  by code_simp

lemma pll_two_K: "fmul to_float (Finite 2) pll_K = Finite 2000"
  by code_simp

lemma to_double_4000: "to_double (2000 * 2) = Finite 4000" "to_double 4000 = Finite 4000"
  by code_simp+

lemma pll_t2_half:
  assumes "1 \<le> sint b"
  shows "\<exists>h. fdiv to_float (pll_t2 b) (Finite 2) = Finite h \<and>
             \<bar>h - (2 * zeta_float / rat_of_int (sint b) - 1 / 1000) / 2\<bar> \<le> 1 / 8388608 \<and>
             - (1 / 512) \<le> h \<and> h \<le> 3 / 4"
proof -
  define W where "W = rat_of_int (sint b)"
  have "rat_of_int 1 \<le> rat_of_int (sint b)" using assms by (simp only: of_int_le_iff)
  then have W1: "1 \<le> W" by (simp only: W_def of_int_1)
  define X where "X = 2 * zeta_float / W"
  have z: "2 * zeta_float = 11863283 / 8388608" by (simp add: zeta_float_def)
  have X0: "0 < X" using W1 by (simp add: X_def z)
  have "11863283 / 8388608 / W \<le> 11863283 / 8388608 / 1"
    using W1 by (intro divide_left_mono) simp_all
  then have X1: "X \<le> 11863283 / 8388608" by (simp add: X_def z)
  have "\<bar>X\<bar> < 2" using X0 X1 by simp
  from to_float_error_2 [OF this] obtain r1
    where r1: "to_float X = Finite r1" and e1: "\<bar>r1 - X\<bar> \<le> 1 / 16777216" by blast
  define c :: rat where "c = 8589935 / 8589934592"
  have c0: "1 / 1000 \<le> c" and c1: "c \<le> 1 / 1000 + 1 / 10000000000" by (simp_all add: c_def)
  have "\<bar>r1 + - c\<bar> < 2" using X0 X1 e1 c0 c1 by linarith
  from to_float_error_2 [OF this] obtain r2
    where r2: "to_float (r1 + - c) = Finite r2" and e2: "\<bar>r2 - (r1 + - c)\<bar> \<le> 1 / 16777216"
    by blast
  have "\<bar>r2 / 2\<bar> < 1" using X0 X1 e1 e2 c0 c1 by linarith
  from to_float_error_1 [OF this] obtain r3
    where r3: "to_float (r2 / 2) = Finite r3" and e3: "\<bar>r3 - r2 / 2\<bar> \<le> 1 / 33554432"
    by blast
  have W0: "W \<noteq> 0" using W1 by simp
  have s1: "fdiv to_float (fmul to_float (Finite 2) pll_zeta) (float_of_q16 b) = Finite r1"
    using W0 r1
    by (simp only: pll_zeta_value pll_two_zeta float_of_q16_def fdiv.simps W_def [symmetric]
        X_def [symmetric] if_False)
  have s2: "pll_t2 b = Finite r2"
    using r2
    by (simp only: pll_t2_def Let_def s1 pll_inv_K fsub_def fneg.simps fadd.simps
        c_def [symmetric])
  have s3: "fdiv to_float (pll_t2 b) (Finite 2) = Finite r3"
    using r3 by (simp add: s2)
  have d1: "r1 - X \<le> 1 / 16777216" "X - r1 \<le> 1 / 16777216" using e1 by linarith+
  have d2: "r2 - (r1 - c) \<le> 1 / 16777216" "(r1 - c) - r2 \<le> 1 / 16777216"
    using e2 by linarith+
  have d3: "r3 - r2 / 2 \<le> 1 / 33554432" "r2 / 2 - r3 \<le> 1 / 33554432" using e3 by linarith+
  have H: "(X - 1 / 1000) / 2 = X / 2 - 1 / 2000" by simp
  have "r3 - (X / 2 - 1 / 2000) \<le> 1 / 8388608" using d1(1) d2(1) d3(1) c0 by linarith
  moreover have "(X / 2 - 1 / 2000) - r3 \<le> 1 / 8388608" using d1(2) d2(2) d3(2) c1 by linarith
  ultimately have "\<bar>r3 - (X / 2 - 1 / 2000)\<bar> \<le> 1 / 8388608" by linarith
  then have "\<bar>r3 - (X - 1 / 1000) / 2\<bar> \<le> 1 / 8388608" by (simp only: H)
  moreover have "- (1 / 512) \<le> r3" using X0 d1 d2 d3 c0 c1 by linarith
  moreover have "r3 \<le> 3 / 4" using X1 d1 d2 d3 c0 c1 by linarith
  ultimately show ?thesis using s3 by (simp add: X_def W_def)
qed

lemma pll_t1_half:
  assumes "1 \<le> sint b"
  shows "\<exists>h. fdiv to_float (pll_t1 b) (Finite 2) = Finite h \<and>
             \<bar>h - 1000 / (rat_of_int (sint b) * rat_of_int (sint b)) / 2\<bar> \<le> 1 / 8192 \<and>
             - (1 / 8192) \<le> h \<and> h \<le> 501"
proof -
  define W where "W = rat_of_int (sint b)"
  have "rat_of_int 1 \<le> rat_of_int (sint b)" using assms by (simp only: of_int_le_iff)
  then have W1: "1 \<le> W" by (simp only: W_def of_int_1)
  have "sint b \<le> 32767" using sint16_bounds [of b] by simp
  then have "rat_of_int (sint b) \<le> rat_of_int 32767" by (simp only: of_int_le_iff)
  then have W2: "W \<le> 32767" by (simp only: W_def of_int_numeral)
  define A where "A = W * W"
  have "1 * 1 \<le> W * W" using W1 by (intro mult_mono) simp_all
  then have A1: "1 \<le> A" by (simp add: A_def)
  have "W * W \<le> 32767 * 32767" using W1 W2 by (intro mult_mono) simp_all
  then have A2: "A < 1073741824" by (simp add: A_def)
  have "pow2 30 \<le> pow2 127" by (rule pow2_mono) simp
  then have "\<bar>A\<bar> < pow2 127" using A1 A2 by (simp add: pow2_more_values)
  moreover have "1 \<le> \<bar>A\<bar>" using A1 by simp
  ultimately obtain s where s: "to_float A = Finite s" and es: "\<bar>s - A\<bar> \<le> \<bar>A\<bar> / 16777216"
    using to_float_rel [of A] by blast
  define lo where "lo = A * (16777215 / 16777216)"
  define hi where "hi = A * (16777217 / 16777216)"
  have lo0: "0 < lo" using A1 by (simp add: lo_def)
  have slo: "lo \<le> s" and shi: "s \<le> hi" using es A1 unfolding lo_def hi_def by linarith+
  have s0: "0 < s" using lo0 slo by linarith
  define X where "X = 1000 / A"
  have X0: "0 < X" using A1 by (simp add: X_def)
  have "1000 / A \<le> 1000 / 1" using A1 by (intro divide_left_mono) simp_all
  then have X1: "X \<le> 1000" by (simp add: X_def)
  define x where "x = 1000 / s"
  have "1000 / s \<le> 1000 / lo" using slo lo0 s0 by (intro divide_left_mono) simp_all
  moreover have "1000 / lo = X * (16777216 / 16777215)" using A1 by (simp add: lo_def X_def)
  ultimately have xu: "x \<le> X * (16777216 / 16777215)" by (simp add: x_def)
  have hi0: "0 < hi" using s0 shi by linarith
  have "1000 / hi \<le> 1000 / s" using shi hi0 s0 by (intro divide_left_mono) simp_all
  moreover have "1000 / hi = X * (16777216 / 16777217)" using A1 by (simp add: hi_def X_def)
  ultimately have xl: "X * (16777216 / 16777217) \<le> x" by (simp add: x_def)
  have ex: "\<bar>x - X\<bar> \<le> 1 / 16384" using xl xu X0 X1 by linarith
  have "\<bar>x\<bar> < 1024" using ex X0 X1 by linarith
  from to_float_error_1024 [OF this] obtain r1
    where r1: "to_float x = Finite r1" and e1: "\<bar>r1 - x\<bar> \<le> 1 / 32768" by blast
  have "\<bar>r1 / 2\<bar> < 1024" using ex e1 X0 X1 by linarith
  from to_float_error_1024 [OF this] obtain r2
    where r2: "to_float (r1 / 2) = Finite r2" and e2: "\<bar>r2 - r1 / 2\<bar> \<le> 1 / 32768" by blast
  have sn: "s \<noteq> 0" using s0 by simp
  have s1: "fmul to_float (float_of_q16 b) (float_of_q16 b) = Finite s"
    using s by (simp only: float_of_q16_def fmul.simps W_def [symmetric] A_def [symmetric])
  have s2: "pll_t1 b = Finite r1"
    using r1 sn
    by (simp only: pll_t1_def Let_def s1 pll_K_def fdiv.simps x_def [symmetric] if_False)
  have s3: "fdiv to_float (pll_t1 b) (Finite 2) = Finite r2"
    using r2 by (simp add: s2)
  have "\<bar>r2 - X / 2\<bar> \<le> 1 / 8192" using ex e1 e2 by linarith
  moreover have "- (1 / 8192) \<le> r2" using ex e1 e2 X0 by linarith
  moreover have "r2 \<le> 501" using ex e1 e2 X1 by linarith
  ultimately show ?thesis using s3 by (simp add: X_def A_def W_def)
qed


lemma pll_b_values:
  assumes "1 \<le> sint b"
  shows "\<exists>y0 y2. pll_b_float b = [Finite y0, Finite 4000, Finite y2] \<and>
           \<bar>y0 - 2 * 1000 * (1 + (2 * zeta_float / rat_of_int (sint b) - 1 / 1000) / 2)\<bar>
             \<le> 1 / 4096 \<and>
           \<bar>y2 - 2 * 1000 * (1 - (2 * zeta_float / rat_of_int (sint b) - 1 / 1000) / 2)\<bar>
             \<le> 1 / 4096 \<and>
           0 \<le> y0 \<and> y0 < 4096 \<and> 0 \<le> y2 \<and> y2 < 4096"
proof -
  define H where "H = (2 * zeta_float / rat_of_int (sint b) - 1 / 1000) / 2"
  from pll_t2_half [OF assms] obtain h
    where hh: "fdiv to_float (pll_t2 b) (Finite 2) = Finite h"
      and eh: "\<bar>h - H\<bar> \<le> 1 / 8388608" and h0: "- (1 / 512) \<le> h" and h1: "h \<le> 3 / 4"
    unfolding H_def by blast
  have "\<bar>1 + h\<bar> < 2" using h0 h1 by linarith
  from to_double_error_2 [OF this] obtain u0
    where u0: "to_double (1 + h) = Finite u0" and eu0: "\<bar>u0 - (1 + h)\<bar> \<le> 1 / 9007199254740992"
    by blast
  have "\<bar>2000 * u0\<bar> < 4096" using h0 h1 eu0 by linarith
  from to_double_error_4096 [OF this] obtain y0
    where y0: "to_double (2000 * u0) = Finite y0"
      and ey0: "\<bar>y0 - 2000 * u0\<bar> \<le> 1 / 4398046511104" by blast
  have "\<bar>1 + - h\<bar> < 2" using h0 h1 by linarith
  from to_double_error_2 [OF this] obtain u2
    where u2: "to_double (1 + - h) = Finite u2"
      and eu2: "\<bar>u2 - (1 + - h)\<bar> \<le> 1 / 9007199254740992" by blast
  have "\<bar>2000 * u2\<bar> < 4096" using h0 h1 eu2 by linarith
  from to_double_error_4096 [OF this] obtain y2
    where y2: "to_double (2000 * u2) = Finite y2"
      and ey2: "\<bar>y2 - 2000 * u2\<bar> \<le> 1 / 4398046511104" by blast
  have shape: "pll_b_float b = [Finite y0, Finite 4000, Finite y2]"
    by (simp only: pll_b_float_def Let_def pll_two_K hh fadd.simps fmul.simps fsub_def
        fneg.simps to_double_4000 u0 y0 u2 y2)
  have "\<bar>y0 - (2000 + 2000 * H)\<bar> \<le> 1 / 4096" using eh eu0 ey0 by linarith
  moreover have "2 * 1000 * (1 + H) = 2000 + 2000 * H" by simp
  ultimately have b0: "\<bar>y0 - 2 * 1000 * (1 + H)\<bar> \<le> 1 / 4096" by (simp only:)
  have "\<bar>y2 - (2000 - 2000 * H)\<bar> \<le> 1 / 4096" using eh eu2 ey2 by linarith
  moreover have "2 * 1000 * (1 - H) = 2000 - 2000 * H" by simp
  ultimately have b2: "\<bar>y2 - 2 * 1000 * (1 - H)\<bar> \<le> 1 / 4096" by (simp only:)
  have r0: "0 \<le> y0" "y0 < 4096" using h0 h1 eu0 ey0 by linarith+
  have r2: "0 \<le> y2" "y2 < 4096" using h0 h1 eu2 ey2 by linarith+
  from shape b0 b2 r0 r2 show ?thesis unfolding H_def by blast
qed

lemma pll_a_values:
  assumes "1 \<le> sint b"
  shows "\<exists>y0 y1. pll_a_float b = [Finite y0, Finite y1, Finite 0] \<and>
           \<bar>y0 - (1 + 1000 / (rat_of_int (sint b) * rat_of_int (sint b)) / 2)\<bar> \<le> 1 / 4096 \<and>
           \<bar>y1 - (- 1 + 1000 / (rat_of_int (sint b) * rat_of_int (sint b)) / 2)\<bar> \<le> 1 / 4096 \<and>
           - 2 < y0 \<and> y0 < 1024 \<and> - 2 < y1 \<and> y1 < 1024"
proof -
  define G where "G = 1000 / (rat_of_int (sint b) * rat_of_int (sint b)) / 2"
  from pll_t1_half [OF assms] obtain h
    where hh: "fdiv to_float (pll_t1 b) (Finite 2) = Finite h"
      and eh: "\<bar>h - G\<bar> \<le> 1 / 8192" and h0: "- (1 / 8192) \<le> h" and h1: "h \<le> 501"
    unfolding G_def by blast
  have "\<bar>1 + h\<bar> < 1024" using h0 h1 by linarith
  from to_double_error_1024 [OF this] obtain y0
    where y0: "to_double (1 + h) = Finite y0" and ey0: "\<bar>y0 - (1 + h)\<bar> \<le> 1 / 17592186044416"
    by blast
  have "\<bar>- 1 + h\<bar> < 1024" using h0 h1 by linarith
  from to_double_error_1024 [OF this] obtain y1
    where y1: "to_double (- 1 + h) = Finite y1"
      and ey1: "\<bar>y1 - (- 1 + h)\<bar> \<le> 1 / 17592186044416" by blast
  have shape: "pll_a_float b = [Finite y0, Finite y1, Finite 0]"
    by (simp only: pll_a_float_def Let_def hh fadd.simps y0 y1)
  have a0: "\<bar>y0 - (1 + G)\<bar> \<le> 1 / 4096" using eh ey0 by linarith
  have a1: "\<bar>y1 - (- 1 + G)\<bar> \<le> 1 / 4096" using eh ey1 by linarith
  have r0: "- 2 < y0" "y0 < 1024" using h0 h1 ey0 by linarith+
  have r1: "- 2 < y1" "y1 < 1024" using h0 h1 ey1 by linarith+
  from shape a0 a1 r0 r1 show ?thesis unfolding G_def by blast
qed

lemma q16_of_float_in_range:
  "- 32769 < y \<Longrightarrow> y < 32768 \<Longrightarrow> q16_of_float U (Finite y) = word_of_int (trunc y)"
  by (simp add: q16_of_float_def)

lemma q16_of_float_4000: "q16_of_float U (Finite 4000) = 4000"
  by (simp add: q16_of_float_def trunc_def)

lemma q16_of_float_0: "q16_of_float U (Finite 0) = 0"
  by (simp add: q16_of_float_def trunc_def)

lemma pll_b_float_shape: "\<exists>x z. pll_b_float b = [x, Finite 4000, z]"
  by (simp add: pll_b_float_def Let_def pll_two_K to_double_4000)

lemma pll_a_float_shape: "\<exists>x z. pll_a_float b = [x, z, Finite 0]"
  by (simp add: pll_a_float_def Let_def)

lemma trunc_between:
  assumes "rat_of_int k \<le> y" and "y < rat_of_int k + 1" and "0 \<le> k"
  shows "trunc y = k"
proof -
  have "0 \<le> y" using assms(1,3) by (meson of_int_0_le_iff order_trans)
  moreover have "\<lfloor>y\<rfloor> = k" using assms(1,2) by (rule floor_unique)
  ultimately show ?thesis by (simp add: trunc_def)
qed

text \<open>
  C4. \<open>nco_crcq16_pll_set_bandwidth\<close> fails, with the fatal diagnostic, exactly when the
  bandwidth is negative. For every bandwidth that is not negative it returns a state
  that stores the bandwidth as given and has the coefficient arrays, three entries each,
  installed in the loop filter by \<open>set_coefficients\<close>; phase and frequency are unchanged.
  The arrays are recomputed from the bandwidth: \<open>b1\<close> is 4000 and \<open>a2\<close> is 0, and for a
  bandwidth \<open>w\<close> of at least 1 the other entries are the integer parts of values within
  \<open>1 / 4096\<close> of \<open>2 K (1 + t2 / 2)\<close>, \<open>2 K (1 - t2 / 2)\<close>, \<open>1 + t1 / 2\<close> and \<open>- 1 + t1 / 2\<close>,
  where \<open>K = 1000\<close>, \<open>t1 = K / (w * w)\<close>, \<open>t2 = 2 zeta / w - 1 / K\<close> and \<open>zeta\<close> is the
  single-precision value of \<open>1 / sqrt 2\<close>.
\<close>

theorem pll_set_bandwidth_guard:
  "((\<exists>e. nco_crcq16_pll_set_bandwidth U I q b = Inl e) \<longleftrightarrow> sint b < 0) \<and>
   (sint b < 0 \<longrightarrow>
      nco_crcq16_pll_set_bandwidth U I q b =
        Inl (Fatal ''error: nco_pll_set_bandwidth(), bandwidth must be positive'')) \<and>
   (0 \<le> sint b \<longrightarrow>
      (\<exists>q'. nco_crcq16_pll_set_bandwidth U I q b = Inr q' \<and>
            bandwidth q' = b \<and>
            pll_b q' = map (q16_of_float U) (pll_b_float b) \<and>
            pll_a q' = map (q16_of_float U) (pll_a_float b) \<and>
            pll_filter q' = set_coefficients I (pll_filter q) (pll_b q') (pll_a q') \<and>
            theta q' = theta q \<and> d_theta q' = d_theta q \<and>
            length (pll_b q') = 3 \<and> length (pll_a q') = 3 \<and>
            pll_b q' ! 1 = 4000 \<and> pll_a q' ! 2 = 0 \<and>
            (1 \<le> sint b \<longrightarrow>
               (\<exists>yb0 yb2 ya0 ya1.
                  \<bar>yb0 - 2 * 1000 * (1 + (2 * zeta_float / rat_of_int (sint b) - 1 / 1000) / 2)\<bar>
                    \<le> 1 / 4096 \<and>
                  \<bar>yb2 - 2 * 1000 * (1 - (2 * zeta_float / rat_of_int (sint b) - 1 / 1000) / 2)\<bar>
                    \<le> 1 / 4096 \<and>
                  \<bar>ya0 - (1 + 1000 / (rat_of_int (sint b) * rat_of_int (sint b)) / 2)\<bar>
                    \<le> 1 / 4096 \<and>
                  \<bar>ya1 - (- 1 + 1000 / (rat_of_int (sint b) * rat_of_int (sint b)) / 2)\<bar>
                    \<le> 1 / 4096 \<and>
                  pll_b q' = [word_of_int (trunc yb0), 4000, word_of_int (trunc yb2)] \<and>
                  pll_a q' = [word_of_int (trunc ya0), word_of_int (trunc ya1), 0]))))"
proof (intro conjI impI)
  show "(\<exists>e. nco_crcq16_pll_set_bandwidth U I q b = Inl e) \<longleftrightarrow> sint b < 0"
    by (simp add: nco_crcq16_pll_set_bandwidth_def Let_def)
next
  assume "sint b < 0"
  then show "nco_crcq16_pll_set_bandwidth U I q b =
      Inl (Fatal ''error: nco_pll_set_bandwidth(), bandwidth must be positive'')"
    by (simp add: nco_crcq16_pll_set_bandwidth_def)
next
  assume nn: "0 \<le> sint b"
  define bs where "bs = map (q16_of_float U) (pll_b_float b)"
  define as where "as = map (q16_of_float U) (pll_a_float b)"
  define q' where "q' = q\<lparr>bandwidth := b, zeta := q16_of_float U pll_zeta, pll_b := bs,
      pll_a := as, pll_filter := set_coefficients I (pll_filter q) bs as\<rparr>"
  have res: "nco_crcq16_pll_set_bandwidth U I q b = Inr q'"
    using nn by (simp add: nco_crcq16_pll_set_bandwidth_def Let_def q'_def bs_def as_def)
  have fields: "bandwidth q' = b" "pll_b q' = bs" "pll_a q' = as"
    "pll_filter q' = set_coefficients I (pll_filter q) bs as"
    "theta q' = theta q" "d_theta q' = d_theta q"
    by (simp_all add: q'_def)
  obtain x z where sb: "pll_b_float b = [x, Finite 4000, z]" using pll_b_float_shape by blast
  obtain x' z' where sa: "pll_a_float b = [x', z', Finite 0]" using pll_a_float_shape by blast
  have lb: "length bs = 3" "bs ! 1 = 4000" by (simp_all add: bs_def sb q16_of_float_4000)
  have la: "length as = 3" "as ! 2 = 0" by (simp_all add: as_def sa q16_of_float_0)
  have coeff: "\<exists>yb0 yb2 ya0 ya1.
      \<bar>yb0 - 2 * 1000 * (1 + (2 * zeta_float / rat_of_int (sint b) - 1 / 1000) / 2)\<bar>
        \<le> 1 / 4096 \<and>
      \<bar>yb2 - 2 * 1000 * (1 - (2 * zeta_float / rat_of_int (sint b) - 1 / 1000) / 2)\<bar>
        \<le> 1 / 4096 \<and>
      \<bar>ya0 - (1 + 1000 / (rat_of_int (sint b) * rat_of_int (sint b)) / 2)\<bar> \<le> 1 / 4096 \<and>
      \<bar>ya1 - (- 1 + 1000 / (rat_of_int (sint b) * rat_of_int (sint b)) / 2)\<bar> \<le> 1 / 4096 \<and>
      bs = [word_of_int (trunc yb0), 4000, word_of_int (trunc yb2)] \<and>
      as = [word_of_int (trunc ya0), word_of_int (trunc ya1), 0]" if pos: "1 \<le> sint b"
  proof -
    from pll_b_values [OF pos] obtain yb0 yb2
      where fb: "pll_b_float b = [Finite yb0, Finite 4000, Finite yb2]"
        and eb0: "\<bar>yb0 - 2 * 1000 * (1 + (2 * zeta_float / rat_of_int (sint b) - 1 / 1000) / 2)\<bar>
          \<le> 1 / 4096"
        and eb2: "\<bar>yb2 - 2 * 1000 * (1 - (2 * zeta_float / rat_of_int (sint b) - 1 / 1000) / 2)\<bar>
          \<le> 1 / 4096"
        and rb: "0 \<le> yb0" "yb0 < 4096" "0 \<le> yb2" "yb2 < 4096" by blast
    from pll_a_values [OF pos] obtain ya0 ya1
      where fa: "pll_a_float b = [Finite ya0, Finite ya1, Finite 0]"
        and ea0: "\<bar>ya0 - (1 + 1000 / (rat_of_int (sint b) * rat_of_int (sint b)) / 2)\<bar>
          \<le> 1 / 4096"
        and ea1: "\<bar>ya1 - (- 1 + 1000 / (rat_of_int (sint b) * rat_of_int (sint b)) / 2)\<bar>
          \<le> 1 / 4096"
        and ra: "- 2 < ya0" "ya0 < 1024" "- 2 < ya1" "ya1 < 1024" by blast
    have c0: "q16_of_float U (Finite yb0) = word_of_int (trunc yb0)"
      using rb by (intro q16_of_float_in_range) linarith+
    have c2: "q16_of_float U (Finite yb2) = word_of_int (trunc yb2)"
      using rb by (intro q16_of_float_in_range) linarith+
    have d0: "q16_of_float U (Finite ya0) = word_of_int (trunc ya0)"
      using ra by (intro q16_of_float_in_range) linarith+
    have d1: "q16_of_float U (Finite ya1) = word_of_int (trunc ya1)"
      using ra by (intro q16_of_float_in_range) linarith+
    have "bs = [word_of_int (trunc yb0), 4000, word_of_int (trunc yb2)]"
      by (simp add: bs_def fb c0 c2 q16_of_float_4000)
    moreover have "as = [word_of_int (trunc ya0), word_of_int (trunc ya1), 0]"
      by (simp add: as_def fa d0 d1 q16_of_float_0)
    ultimately show ?thesis using eb0 eb2 ea0 ea1 by blast
  qed
  show "\<exists>q'. nco_crcq16_pll_set_bandwidth U I q b = Inr q' \<and>
            bandwidth q' = b \<and>
            pll_b q' = map (q16_of_float U) (pll_b_float b) \<and>
            pll_a q' = map (q16_of_float U) (pll_a_float b) \<and>
            pll_filter q' = set_coefficients I (pll_filter q) (pll_b q') (pll_a q') \<and>
            theta q' = theta q \<and> d_theta q' = d_theta q \<and>
            length (pll_b q') = 3 \<and> length (pll_a q') = 3 \<and>
            pll_b q' ! 1 = 4000 \<and> pll_a q' ! 2 = 0 \<and>
            (1 \<le> sint b \<longrightarrow>
               (\<exists>yb0 yb2 ya0 ya1.
                  \<bar>yb0 - 2 * 1000 * (1 + (2 * zeta_float / rat_of_int (sint b) - 1 / 1000) / 2)\<bar>
                    \<le> 1 / 4096 \<and>
                  \<bar>yb2 - 2 * 1000 * (1 - (2 * zeta_float / rat_of_int (sint b) - 1 / 1000) / 2)\<bar>
                    \<le> 1 / 4096 \<and>
                  \<bar>ya0 - (1 + 1000 / (rat_of_int (sint b) * rat_of_int (sint b)) / 2)\<bar>
                    \<le> 1 / 4096 \<and>
                  \<bar>ya1 - (- 1 + 1000 / (rat_of_int (sint b) * rat_of_int (sint b)) / 2)\<bar>
                    \<le> 1 / 4096 \<and>
                  pll_b q' = [word_of_int (trunc yb0), 4000, word_of_int (trunc yb2)] \<and>
                  pll_a q' = [word_of_int (trunc ya0), word_of_int (trunc ya1), 0]))"
    apply (rule exI [of _ q'])
    apply (simp only: fields)
    apply (intro conjI impI)
    apply (rule res)
    apply (rule refl)
    apply (rule bs_def)
    apply (rule as_def)
    apply (rule refl)+
    apply (rule lb la)+
    apply (erule coeff)
    done
qed


theorem pll_set_bandwidth_guard_witness:
  "(\<exists>e. nco_crcq16_pll_set_bandwidth conv_example filt_example nco_example (- 1) = Inl e) \<and>
   (\<exists>q'. nco_crcq16_pll_set_bandwidth conv_example filt_example nco_example 3 = Inr q' \<and>
         bandwidth q' = 3 \<and>
         pll_b q' = [2470, 4000, 1529] \<and> pll_a q' = [56, 54, 0] \<and>
         pll_filter q' =
           set_coefficients filt_example (pll_filter nco_example) [2470, 4000, 1529] [56, 54, 0])"
proof -
  note T = pll_set_bandwidth_guard [of conv_example filt_example nco_example]
  have m: "sint (- 1 :: 16 word) < 0" by simp
  have p0: "0 \<le> sint (3 :: 16 word)" and p1: "1 \<le> sint (3 :: 16 word)" by simp_all
  have w3: "rat_of_int (sint (3 :: 16 word)) = 3" by simp
  have A: "\<exists>e. nco_crcq16_pll_set_bandwidth conv_example filt_example nco_example (- 1) = Inl e"
    using m by (rule iffD2 [OF T [of "- 1", THEN conjunct1]])
  from T [of 3, THEN conjunct2, THEN conjunct2, THEN mp, OF p0] obtain q'
    where r: "nco_crcq16_pll_set_bandwidth conv_example filt_example nco_example 3 = Inr q'"
      and bw: "bandwidth q' = 3"
      and pf: "pll_filter q' =
        set_coefficients filt_example (pll_filter nco_example) (pll_b q') (pll_a q')"
      and c: "1 \<le> sint (3 :: 16 word) \<longrightarrow>
        (\<exists>yb0 yb2 ya0 ya1.
           \<bar>yb0 - 2 * 1000 * (1 + (2 * zeta_float / rat_of_int (sint (3 :: 16 word)) - 1 / 1000) / 2)\<bar>
             \<le> 1 / 4096 \<and>
           \<bar>yb2 - 2 * 1000 * (1 - (2 * zeta_float / rat_of_int (sint (3 :: 16 word)) - 1 / 1000) / 2)\<bar>
             \<le> 1 / 4096 \<and>
           \<bar>ya0 - (1 + 1000 / (rat_of_int (sint (3 :: 16 word)) * rat_of_int (sint (3 :: 16 word))) / 2)\<bar>
             \<le> 1 / 4096 \<and>
           \<bar>ya1 - (- 1 + 1000 / (rat_of_int (sint (3 :: 16 word)) * rat_of_int (sint (3 :: 16 word))) / 2)\<bar>
             \<le> 1 / 4096 \<and>
           pll_b q' = [word_of_int (trunc yb0), 4000, word_of_int (trunc yb2)] \<and>
           pll_a q' = [word_of_int (trunc ya0), word_of_int (trunc ya1), 0])"
    by blast
  define vb0 :: rat where "vb0 = 2 * 1000 * (1 + (2 * zeta_float / 3 - 1 / 1000) / 2)"
  define vb2 :: rat where "vb2 = 2 * 1000 * (1 - (2 * zeta_float / 3 - 1 / 1000) / 2)"
  define va0 :: rat where "va0 = 1 + 1000 / (3 * 3) / 2"
  define va1 :: rat where "va1 = - 1 + 1000 / (3 * 3) / 2"
  from c [THEN mp, OF p1, unfolded w3, folded vb0_def vb2_def va0_def va1_def]
  obtain yb0 yb2 ya0 ya1
    where eb0: "\<bar>yb0 - vb0\<bar> \<le> 1 / 4096" and eb2: "\<bar>yb2 - vb2\<bar> \<le> 1 / 4096"
      and ea0: "\<bar>ya0 - va0\<bar> \<le> 1 / 4096" and ea1: "\<bar>ya1 - va1\<bar> \<le> 1 / 4096"
      and pb: "pll_b q' = [word_of_int (trunc yb0), 4000, word_of_int (trunc yb2)]"
      and pa: "pll_a q' = [word_of_int (trunc ya0), word_of_int (trunc ya1), 0]"
    by blast
  have vb0: "2470 + 1 / 4096 \<le> vb0" "vb0 + 1 / 4096 < 2471"
    by (simp_all add: vb0_def zeta_float_def)
  have vb2: "1529 + 1 / 4096 \<le> vb2" "vb2 + 1 / 4096 < 1530"
    by (simp_all add: vb2_def zeta_float_def)
  have va0: "56 + 1 / 4096 \<le> va0" "va0 + 1 / 4096 < 57" by (simp_all add: va0_def)
  have va1: "54 + 1 / 4096 \<le> va1" "va1 + 1 / 4096 < 55" by (simp_all add: va1_def)
  have l0: "2470 \<le> yb0" "yb0 < 2471" using eb0 vb0 by linarith+
  have l2: "1529 \<le> yb2" "yb2 < 1530" using eb2 vb2 by linarith+
  have k0: "56 \<le> ya0" "ya0 < 57" using ea0 va0 by linarith+
  have k1: "54 \<le> ya1" "ya1 < 55" using ea1 va1 by linarith+
  have t0: "trunc yb0 = 2470" using l0 by (intro trunc_between) simp_all
  have t2: "trunc yb2 = 1529" using l2 by (intro trunc_between) simp_all
  have u0: "trunc ya0 = 56" using k0 by (intro trunc_between) simp_all
  have u1: "trunc ya1 = 54" using k1 by (intro trunc_between) simp_all
  have pb': "pll_b q' = [2470, 4000, 1529]" by (simp add: pb t0 t2)
  have pa': "pll_a q' = [56, 54, 0]" by (simp add: pa u0 u1)
  have pf': "pll_filter q' =
      set_coefficients filt_example (pll_filter nco_example) [2470, 4000, 1529] [56, 54, 0]"
    using pf by (simp only: pb' pa')
  from A r bw pb' pa' pf' show ?thesis by blast
qed

text \<open>
  C5. For every oscillator state and every phase error, \<open>nco_crcq16_pll_step\<close> runs the
  phase error through the loop filter and adds the filter's output to the frequency (the
  16-bit addition, with no constraint on the sum); the loop filter is the one the
  execution returns and the phase is unchanged.
\<close>

theorem pll_step_adjusts_frequency:
  "d_theta (nco_crcq16_pll_step I q e) = d_theta q + snd (execute_df1 I (pll_filter q) e) \<and>
   pll_filter (nco_crcq16_pll_step I q e) = fst (execute_df1 I (pll_filter q) e) \<and>
   theta (nco_crcq16_pll_step I q e) = theta q"
  by (simp add: nco_crcq16_pll_step_def nco_crcq16_adjust_frequency_def split_beta)

text \<open>
  C6. The coefficient formulas are evaluated in floating point and assigned to \<open>q16_t\<close>
  array elements, which converts them to 16-bit integers by truncation; no conversion to
  the fixed-point scale takes place. At the bandwidth 3 the arrays are
  \<open>b = [2470, 4000, 1529]\<close> and \<open>a = [56, 54, 0]\<close>, and the stored \<open>zeta\<close> is 0, while the
  formulas give \<open>a0 = 1 + (1000 / 9) / 2\<close> and \<open>a1 = - 1 + (1000 / 9) / 2\<close>, which are not
  integers.
\<close>

theorem pll_coefficients_truncated:
  "nco_crcq16_pll_set_bandwidth conv_example filt_example nco_example 3 =
     Inr (nco_example\<lparr>bandwidth := 3, zeta := 0,
            pll_b := [2470, 4000, 1529], pll_a := [56, 54, 0]\<rparr>) \<and>
   (56 :: rat) \<noteq> 1 + (1000 / (3 * 3)) / 2 \<and>
   (54 :: rat) \<noteq> - 1 + (1000 / (3 * 3)) / 2"
proof -
  have b: "map (q16_of_float conv_example) (pll_b_float 3) = [2470, 4000, 1529]"
    by code_simp
  have a: "map (q16_of_float conv_example) (pll_a_float 3) = [56, 54, 0]"
    by code_simp
  have z: "q16_of_float conv_example pll_zeta = 0"
    by code_simp
  show ?thesis
    by (simp add: nco_crcq16_pll_set_bandwidth_def Let_def a b z filt_example_def)
qed

section \<open>Active subcarriers of the short sequence\<close>

lemma init_S0_loop_props:
  assumes "init_S0_loop X ms i p M = (S, n)"
  shows "length S = length p \<and>
         n = M + card {j. j < length p \<and> p ! j \<noteq> OFDMFRAME_SCTYPE_NULL X \<and> even (i + j)} \<and>
         (\<forall>j<length p. (S ! j \<noteq> 0) = (p ! j \<noteq> OFDMFRAME_SCTYPE_NULL X \<and> even (i + j)))"
  using assms
proof (induction p arbitrary: ms i M S n)
  case Nil
  then show ?case by simp
next
  case (Cons t p)
  let ?N = "OFDMFRAME_SCTYPE_NULL X"
  obtain sym ms' where g: "msequence_generate_symbol X ms 3 = (sym, ms')"
    by (cases "msequence_generate_symbol X ms 3")
  define act where "act \<longleftrightarrow> t \<noteq> ?N \<and> even i"
  define v :: complex where
    "v = (if act then (if sym AND 1 \<noteq> 0 then 1 else - 1) else 0)"
  define M' where "M' = (if act then M + 1 else M)"
  obtain S' n' where r: "init_S0_loop X ms' (Suc i) p M' = (S', n')"
    by (cases "init_S0_loop X ms' (Suc i) p M'")
  have e: "init_S0_loop X ms i (t # p) M = (v # S', n')"
    using g r by (auto simp add: act_def v_def M'_def Let_def even_iff_mod_2_eq_zero)
  with Cons.prems have S: "S = v # S'" and n: "n = n'" by simp_all
  from Cons.IH [OF r]
  have l: "length S' = length p"
    and c: "n' = M' + card {j. j < length p \<and> p ! j \<noteq> ?N \<and> even (Suc i + j)}"
    and a: "\<forall>j<length p. (S' ! j \<noteq> 0) = (p ! j \<noteq> ?N \<and> even (Suc i + j))"
    by simp_all
  let ?A = "{j. j < length (t # p) \<and> (t # p) ! j \<noteq> ?N \<and> even (i + j)}"
  let ?B = "{j. j < length p \<and> p ! j \<noteq> ?N \<and> even (Suc i + j)}"
  have split: "?A = (if act then {0} else {}) \<union> Suc ` ?B"
  proof (rule set_eqI)
    fix j
    show "j \<in> ?A \<longleftrightarrow> j \<in> (if act then {0} else {}) \<union> Suc ` ?B"
      by (cases j) (auto simp add: act_def image_iff)
  qed
  have fin: "finite ?B" by simp
  have cardA: "card ?A = (if act then 1 else 0) + card ?B"
  proof (cases act)
    case True
    have "card ({0} \<union> Suc ` ?B) = card {0::nat} + card (Suc ` ?B)"
      by (rule card_Un_disjoint) (use fin in auto)
    also have "card (Suc ` ?B) = card ?B"
      by (rule card_image) simp
    finally show ?thesis using True split by simp
  next
    case False
    have "card (Suc ` ?B) = card ?B"
      by (rule card_image) simp
    with False split show ?thesis by simp
  qed
  have v0: "(v \<noteq> 0) = act"
    by (simp add: v_def)
  have len: "length S = length (t # p)" using S l by simp
  have cnt: "n = M + card ?A"
    using n c cardA by (simp add: M'_def)
  have all: "\<forall>j<length (t # p). (S ! j \<noteq> 0) = ((t # p) ! j \<noteq> ?N \<and> even (i + j))"
  proof (intro allI impI)
    fix j assume "j < length (t # p)"
    then show "(S ! j \<noteq> 0) = ((t # p) ! j \<noteq> ?N \<and> even (i + j))"
      using a v0 S by (cases j) (simp_all add: act_def)
  qed
  from len cnt all show ?case by (intro conjI)
qed

lemma init_S0_result:
  obtains S where
    "init_S0_loop X
       (msequence_create_default X
         (if liquid_nextpow2 X (length p) < 4 then 4
          else if liquid_nextpow2 X (length p) > 8 then 8 else liquid_nextpow2 X (length p)))
       0 p 0
     = (S, card {i. i < length p \<and> p ! i \<noteq> OFDMFRAME_SCTYPE_NULL X \<and> even i})"
    and "length S = length p"
    and "\<forall>i<length p. (S ! i \<noteq> 0) = (p ! i \<noteq> OFDMFRAME_SCTYPE_NULL X \<and> even i)"
proof -
  let ?ms = "msequence_create_default X
         (if liquid_nextpow2 X (length p) < 4 then 4
          else if liquid_nextpow2 X (length p) > 8 then 8 else liquid_nextpow2 X (length p))"
  obtain S n where r: "init_S0_loop X ?ms 0 p 0 = (S, n)"
    by (cases "init_S0_loop X ?ms 0 p 0")
  from init_S0_loop_props [OF r]
  have "n = card {i. i < length p \<and> p ! i \<noteq> OFDMFRAME_SCTYPE_NULL X \<and> even i}"
    and "length S = length p"
    and "\<forall>i<length p. (S ! i \<noteq> 0) = (p ! i \<noteq> OFDMFRAME_SCTYPE_NULL X \<and> even i)"
    by simp_all
  with r show ?thesis by (intro that) simp_all
qed

lemma card_even_below_64: "card {i :: nat. i < 64 \<and> even i} = 32"
proof -
  have "{i :: nat. i < 64 \<and> even i} = (\<lambda>k. 2 * k) ` {..<32}"
  proof (rule set_eqI)
    fix i :: nat
    show "i \<in> {i. i < 64 \<and> even i} \<longleftrightarrow> i \<in> (\<lambda>k. 2 * k) ` {..<32}"
    proof
      assume "i \<in> {i. i < 64 \<and> even i}"
      then obtain k where "i = 2 * k" "i < 64" by (auto elim: evenE)
      then show "i \<in> (\<lambda>k. 2 * k) ` {..<32}" by auto
    next
      assume "i \<in> (\<lambda>k. 2 * k) ` {..<32}"
      then show "i \<in> {i. i < 64 \<and> even i}" by auto
    qed
  qed
  moreover have "card ((\<lambda>k :: nat. 2 * k) ` {..<32}) = card {..<(32::nat)}"
    by (rule card_image) (simp add: inj_on_def)
  ultimately show ?thesis by simp
qed

text \<open>
  C9. For every subcarrier allocation \<open>p\<close>, the active subcarriers of \<open>ofdmframe_init_S0\<close>
  are exactly the even-indexed ones that are not NULL. When there is none the function
  fails with the fatal diagnostic and returns no result; an entirely NULL allocation of
  any length is such a case. Otherwise it returns their number as the count, and the
  frequency-domain symbol is nonzero exactly at those indices. For an allocation of 64
  subcarriers that all carry the same non-NULL tag (all DATA) the count is 32.
\<close>

theorem init_S0_active_count:
  "(card {i. i < length p \<and> p ! i \<noteq> OFDMFRAME_SCTYPE_NULL X \<and> even i} = 0 \<longrightarrow>
      ofdmframe_init_S0 X p =
        Inl (Fatal ''error: ofdmframe_init_S0(), no subcarriers enabled; check allocation'')) \<and>
   (card {i. i < length p \<and> p ! i \<noteq> OFDMFRAME_SCTYPE_NULL X \<and> even i} \<noteq> 0 \<longrightarrow>
      (\<exists>r. ofdmframe_init_S0 X p = Inr r \<and>
         out_M_S0 r = card {i. i < length p \<and> p ! i \<noteq> OFDMFRAME_SCTYPE_NULL X \<and> even i} \<and>
         length (out_S0 r) = length p \<and>
         (\<forall>i<length p. (out_S0 r ! i \<noteq> 0) = (p ! i \<noteq> OFDMFRAME_SCTYPE_NULL X \<and> even i)))) \<and>
   ofdmframe_init_S0 X (replicate n (OFDMFRAME_SCTYPE_NULL X)) =
     Inl (Fatal ''error: ofdmframe_init_S0(), no subcarriers enabled; check allocation'') \<and>
   (d \<noteq> OFDMFRAME_SCTYPE_NULL X \<longrightarrow>
      (\<exists>r. ofdmframe_init_S0 X (replicate 64 d) = Inr r \<and> out_M_S0 r = 32))"
proof -
  have gen: "(card {i. i < length p \<and> p ! i \<noteq> OFDMFRAME_SCTYPE_NULL X \<and> even i} = 0 \<longrightarrow>
      ofdmframe_init_S0 X p =
        Inl (Fatal ''error: ofdmframe_init_S0(), no subcarriers enabled; check allocation'')) \<and>
   (card {i. i < length p \<and> p ! i \<noteq> OFDMFRAME_SCTYPE_NULL X \<and> even i} \<noteq> 0 \<longrightarrow>
      (\<exists>r. ofdmframe_init_S0 X p = Inr r \<and>
         out_M_S0 r = card {i. i < length p \<and> p ! i \<noteq> OFDMFRAME_SCTYPE_NULL X \<and> even i} \<and>
         length (out_S0 r) = length p \<and>
         (\<forall>i<length p. (out_S0 r ! i \<noteq> 0) = (p ! i \<noteq> OFDMFRAME_SCTYPE_NULL X \<and> even i))))"
    for p :: "8 word list"
  proof -
    obtain S where r: "init_S0_loop X
       (msequence_create_default X
         (if liquid_nextpow2 X (length p) < 4 then 4
          else if liquid_nextpow2 X (length p) > 8 then 8 else liquid_nextpow2 X (length p)))
       0 p 0
     = (S, card {i. i < length p \<and> p ! i \<noteq> OFDMFRAME_SCTYPE_NULL X \<and> even i})"
      and l: "length S = length p"
      and a: "\<forall>i<length p. (S ! i \<noteq> 0) = (p ! i \<noteq> OFDMFRAME_SCTYPE_NULL X \<and> even i)"
      by (rule init_S0_result)
    show ?thesis
      using l a by (simp add: ofdmframe_init_S0_def Let_def r)
  qed
  have null: "ofdmframe_init_S0 X (replicate n (OFDMFRAME_SCTYPE_NULL X)) =
     Inl (Fatal ''error: ofdmframe_init_S0(), no subcarriers enabled; check allocation'')"
  proof -
    have "{i. i < length (replicate n (OFDMFRAME_SCTYPE_NULL X)) \<and>
        replicate n (OFDMFRAME_SCTYPE_NULL X) ! i \<noteq> OFDMFRAME_SCTYPE_NULL X \<and> even i} = {}"
      by auto
    then have "card {i. i < length (replicate n (OFDMFRAME_SCTYPE_NULL X)) \<and>
        replicate n (OFDMFRAME_SCTYPE_NULL X) ! i \<noteq> OFDMFRAME_SCTYPE_NULL X \<and> even i} = 0"
      by (simp only: card.empty)
    with gen [of "replicate n (OFDMFRAME_SCTYPE_NULL X)"] show ?thesis by blast
  qed
  have data: "\<exists>r. ofdmframe_init_S0 X (replicate 64 d) = Inr r \<and> out_M_S0 r = 32"
    if d: "d \<noteq> OFDMFRAME_SCTYPE_NULL X"
  proof -
    have "{i. i < length (replicate 64 d) \<and>
        replicate 64 d ! i \<noteq> OFDMFRAME_SCTYPE_NULL X \<and> even i} = {i. i < 64 \<and> even i}"
      using d by auto
    then have c: "card {i. i < length (replicate 64 d) \<and>
        replicate 64 d ! i \<noteq> OFDMFRAME_SCTYPE_NULL X \<and> even i} = 32"
      by (simp only: card_even_below_64)
    then have "card {i. i < length (replicate 64 d) \<and>
        replicate 64 d ! i \<noteq> OFDMFRAME_SCTYPE_NULL X \<and> even i} \<noteq> 0"
      by (simp only:)
    with gen [of "replicate 64 d"] obtain r where
      "ofdmframe_init_S0 X (replicate 64 d) = Inr r"
      "out_M_S0 r = card {i. i < length (replicate 64 d) \<and>
        replicate 64 d ! i \<noteq> OFDMFRAME_SCTYPE_NULL X \<and> even i}"
      by blast
    with c show ?thesis by (simp only:) simp
  qed
  from gen [of p] null data show ?thesis by blast
qed

theorem init_S0_active_count_witness:
  "card {i. i < length [0 :: 8 word] \<and>
      [0] ! i \<noteq> OFDMFRAME_SCTYPE_NULL ofdm_example \<and> even i} = 0 \<and>
   ofdmframe_init_S0 ofdm_example [0] =
     Inl (Fatal ''error: ofdmframe_init_S0(), no subcarriers enabled; check allocation'') \<and>
   card {i. i < length [2 :: 8 word] \<and>
      [2] ! i \<noteq> OFDMFRAME_SCTYPE_NULL ofdm_example \<and> even i} \<noteq> 0 \<and>
   (0 :: nat) < length [2 :: 8 word] \<and>
   (\<exists>r. ofdmframe_init_S0 ofdm_example [2] = Inr r \<and> out_M_S0 r = 1 \<and> out_S0 r ! 0 \<noteq> 0) \<and>
   (2 :: 8 word) \<noteq> OFDMFRAME_SCTYPE_NULL ofdm_example \<and>
   (\<exists>r. ofdmframe_init_S0 ofdm_example (replicate 64 2) = Inr r \<and> out_M_S0 r = 32)"
proof -
  have N: "OFDMFRAME_SCTYPE_NULL ofdm_example = 0"
    by (simp add: ofdm_example_def)
  have c0: "card {i. i < length [0 :: 8 word] \<and>
      [0] ! i \<noteq> OFDMFRAME_SCTYPE_NULL ofdm_example \<and> even i} = 0"
  proof -
    have "{i. i < length [0 :: 8 word] \<and>
        [0] ! i \<noteq> OFDMFRAME_SCTYPE_NULL ofdm_example \<and> even i} = {}"
      by (auto simp add: N)
    then show ?thesis by (simp only: card.empty)
  qed
  have s1: "{i. i < length [2 :: 8 word] \<and>
      [2] ! i \<noteq> OFDMFRAME_SCTYPE_NULL ofdm_example \<and> even i} = {0}"
    by (auto simp add: N)
  have c1: "card {i. i < length [2 :: 8 word] \<and>
      [2] ! i \<noteq> OFDMFRAME_SCTYPE_NULL ofdm_example \<and> even i} = 1"
    by (simp only: s1) simp
  then have c1': "card {i. i < length [2 :: 8 word] \<and>
      [2] ! i \<noteq> OFDMFRAME_SCTYPE_NULL ofdm_example \<and> even i} \<noteq> 0"
    by simp
  have l: "(0 :: nat) < length [2 :: 8 word]" by simp
  have d: "(2 :: 8 word) \<noteq> OFDMFRAME_SCTYPE_NULL ofdm_example"
    by (simp add: N)
  note t = init_S0_active_count [of "[0]" ofdm_example 0 2]
  note u = init_S0_active_count [of "[2]" ofdm_example 0 2]
  from t c0 have a: "ofdmframe_init_S0 ofdm_example [0] =
     Inl (Fatal ''error: ofdmframe_init_S0(), no subcarriers enabled; check allocation'')"
    by blast
  from u c1' obtain r where r: "ofdmframe_init_S0 ofdm_example [2] = Inr r"
    "out_M_S0 r = card {i. i < length [2 :: 8 word] \<and>
      [2] ! i \<noteq> OFDMFRAME_SCTYPE_NULL ofdm_example \<and> even i}"
    "\<forall>i<length [2 :: 8 word]. (out_S0 r ! i \<noteq> 0) =
       ([2] ! i \<noteq> OFDMFRAME_SCTYPE_NULL ofdm_example \<and> even i)"
    by blast
  from r(3) l have "(out_S0 r ! 0 \<noteq> 0) =
      ([2 :: 8 word] ! 0 \<noteq> OFDMFRAME_SCTYPE_NULL ofdm_example \<and> even (0 :: nat))"
    by blast
  with d have "out_S0 r ! 0 \<noteq> 0" by simp
  with r(1,2) c1 have b: "\<exists>r. ofdmframe_init_S0 ofdm_example [2] = Inr r \<and>
      out_M_S0 r = 1 \<and> out_S0 r ! 0 \<noteq> 0"
    by auto
  from u d have c: "\<exists>r. ofdmframe_init_S0 ofdm_example (replicate 64 2) = Inr r \<and>
      out_M_S0 r = 32"
    by blast
  from c0 a c1' l b d c show ?thesis by (intro conjI)
qed


end
